theory Spec2Isabelle
  imports Complex_Main "HOL-Library.Sublist" "HOL-Library.Multiset"
begin

section \<open>JavaScript strings\<close>

text \<open>
  A JavaScript string is a sequence of UTF-16 code units. It is modelled as an Isabelle
  \<open>string\<close>, each \<open>char\<close> standing for the code unit of the same number, so the model covers
  the texts whose code units are below 256 (Latin-1). \<open>code\<close> reads the number of a unit.
\<close>

definition code :: "char \<Rightarrow> int" where
  "code c = of_char c"

definition is_digit :: "char \<Rightarrow> bool" where
  "is_digit c = (48 \<le> code c \<and> code c \<le> 57)"

definition is_upper :: "char \<Rightarrow> bool" where
  "is_upper c = (65 \<le> code c \<and> code c \<le> 90)"

definition is_lower :: "char \<Rightarrow> bool" where
  "is_lower c = (97 \<le> code c \<and> code c \<le> 122)"

text \<open>
  \<open>\w\<close> of a regular expression: ASCII letters, digits and the underscore.
\<close>

definition is_word :: "char \<Rightarrow> bool" where
  "is_word c = (is_digit c \<or> is_upper c \<or> is_lower c \<or> code c = 95)"

text \<open>
  White space and line terminators, the set that \<open>\s\<close>, \<open>trim\<close> and \<open>parseFloat\<close> share:
  tab, line feed, vertical tab, form feed, carriage return, space and no-break space.
\<close>

definition is_space :: "char \<Rightarrow> bool" where
  "is_space c = (code c \<in> {9, 10, 11, 12, 13, 32, 160})"

text \<open>Line terminators, which \<open>.\<close> does not match and at which \<open>^\<close> and \<open>$\<close> of a multiline
  expression anchor: line feed and carriage return.\<close>

definition is_line_terminator :: "char \<Rightarrow> bool" where
  "is_line_terminator c = (code c = 10 \<or> code c = 13)"

text \<open>
  \<open>toLowerCase\<close> and \<open>toUpperCase\<close>, one code unit at a time. Below 256 the lower-case
  mapping sends A-Z and the accented capitals 192-222 (but not the multiplication sign 215)
  32 places up and leaves every other unit alone. The upper-case mapping sends a-z and
  224-254 (but not the division sign 247) 32 places down; the three units whose upper case
  leaves Latin-1 (181, 223, 255) are left alone here, and no call of the program reaches them.
\<close>

definition lower_char :: "char \<Rightarrow> char" where
  "lower_char c =
     (if is_upper c \<or> (192 \<le> code c \<and> code c \<le> 222 \<and> code c \<noteq> 215)
      then char_of (code c + 32) else c)"

definition upper_char :: "char \<Rightarrow> char" where
  "upper_char c =
     (if is_lower c \<or> (224 \<le> code c \<and> code c \<le> 254 \<and> code c \<noteq> 247)
      then char_of (code c - 32) else c)"

definition toLowerCase :: "string \<Rightarrow> string" where
  "toLowerCase s = map lower_char s"

definition toUpperCase :: "string \<Rightarrow> string" where
  "toUpperCase s = map upper_char s"

text \<open>\<open>s.includes(t)\<close>: \<open>t\<close> occurs in \<open>s\<close> as a contiguous run.\<close>

definition str_includes :: "string \<Rightarrow> string \<Rightarrow> bool" where
  "str_includes s t = sublist t s"

text \<open>\<open>s.endsWith(t)\<close>.\<close>

definition endsWith :: "string \<Rightarrow> string \<Rightarrow> bool" where
  "endsWith s t = suffix t s"

text \<open>\<open>s.indexOf(t, from)\<close>: the least index at or after \<open>from\<close> where \<open>t\<close> starts, or
  -1; a \<open>from\<close> outside the string is moved to its nearer end.\<close>

fun index_from :: "string \<Rightarrow> string \<Rightarrow> nat \<Rightarrow> int" where
  "index_from [] t i = (if t = [] then int i else -1)"
| "index_from (c # cs) t i = (if prefix t (c # cs) then int i else index_from cs t (Suc i))"

definition indexOf :: "string \<Rightarrow> string \<Rightarrow> int \<Rightarrow> int" where
  "indexOf s t from = index_from (drop (nat from) s) t (min (nat from) (length s))"

text \<open>\<open>s.lastIndexOf(c)\<close> for a one-character \<open>c\<close>: the greatest index holding \<open>c\<close>, or -1.\<close>

fun last_index_from :: "string \<Rightarrow> char \<Rightarrow> nat \<Rightarrow> int \<Rightarrow> int" where
  "last_index_from [] c i found = found"
| "last_index_from (x # xs) c i found = last_index_from xs c (Suc i) (if x = c then int i else found)"

definition lastIndexOf :: "string \<Rightarrow> char \<Rightarrow> int" where
  "lastIndexOf s c = last_index_from s c 0 (-1)"

text \<open>\<open>s.replace(t, r)\<close> with a string pattern: only the first occurrence is replaced.\<close>

fun replace_first :: "string \<Rightarrow> string \<Rightarrow> string \<Rightarrow> string" where
  "replace_first [] t r = (if t = [] then r else [])"
| "replace_first (c # cs) t r =
     (if prefix t (c # cs) then r @ drop (length t) (c # cs) else c # replace_first cs t r)"

text \<open>\<open>s.replace(/c/g, '')\<close> for a one-character expression: every occurrence is removed.\<close>

definition remove_all :: "char \<Rightarrow> string \<Rightarrow> string" where
  "remove_all c s = filter (\<lambda>x. x \<noteq> c) s"

text \<open>\<open>s.trim()\<close>.\<close>

definition trim :: "string \<Rightarrow> string" where
  "trim s = rev (dropWhile is_space (rev (dropWhile is_space s)))"

text \<open>\<open>s.split('\n')\<close>: the text from_to line feeds, empty pieces kept; the empty string
  gives one empty piece.\<close>

fun split_on :: "char \<Rightarrow> string \<Rightarrow> string list" where
  "split_on d [] = [[]]"
| "split_on d (c # cs) =
     (case split_on d cs of
        [] \<Rightarrow> (if c = d then [[], []] else [[c]])
      | p # ps \<Rightarrow> (if c = d then [] # p # ps else (c # p) # ps))"

section \<open>JavaScript numbers\<close>

text \<open>
  A number is the exact decimal value it denotes, one of the two infinities, or NaN.
  The rounding of a decimal to the nearest double is not modelled (two equal decimals round
  to the same double), and neither is the sign of zero (\<open>-0 === 0\<close> holds in JavaScript).
\<close>

datatype jsnum = Num rat | PosInf | NegInf | NaN

fun neg :: "jsnum \<Rightarrow> jsnum" where
  "neg (Num r) = Num (- r)"
| "neg PosInf = NegInf"
| "neg NegInf = PosInf"
| "neg NaN = NaN"

text \<open>\<open>Math.abs\<close>.\<close>

fun math_abs :: "jsnum \<Rightarrow> jsnum" where
  "math_abs (Num r) = Num (abs r)"
| "math_abs PosInf = PosInf"
| "math_abs NegInf = PosInf"
| "math_abs NaN = NaN"

text \<open>\<open>a > b\<close> on numbers: false as soon as one side is NaN.\<close>

fun gt :: "jsnum \<Rightarrow> jsnum \<Rightarrow> bool" where
  "gt (Num a) (Num b) = (a > b)"
| "gt NaN _ = False"
| "gt _ NaN = False"
| "gt PosInf b = (b \<noteq> PosInf)"
| "gt a NegInf = (a \<noteq> NegInf)"
| "gt _ _ = False"

text \<open>A number is falsy when it is zero or NaN.\<close>

fun truthy :: "jsnum \<Rightarrow> bool" where
  "truthy (Num r) = (r \<noteq> 0)"
| "truthy NaN = False"
| "truthy _ = True"

subsection \<open>parseFloat\<close>

definition digit_val :: "char \<Rightarrow> int" where
  "digit_val c = code c - 48"

definition digits_val :: "string \<Rightarrow> int" where
  "digits_val ds = foldl (\<lambda>a c. 10 * a + digit_val c) 0 ds"

text \<open>An optional sign at the front: whether it is a minus, and the rest.\<close>

fun take_sign :: "string \<Rightarrow> bool \<times> string" where
  "take_sign [] = (False, [])"
| "take_sign (c # cs) =
     (if c = CHR ''-'' then (True, cs) else if c = CHR ''+'' then (False, cs) else (False, c # cs))"

text \<open>The exponent part \<open>e\<close>, \<open>E\<close> with an optional sign and at least one digit; 0 when the
  text does not continue with one.\<close>

fun exponent :: "string \<Rightarrow> int" where
  "exponent [] = 0"
| "exponent (c # cs) =
     (if c = CHR ''e'' \<or> c = CHR ''E'' then
        (case take_sign cs of (negative, r) \<Rightarrow>
           (let ds = takeWhile is_digit r in
            if ds = [] then 0
            else if negative then - digits_val ds else digits_val ds))
      else 0)"

text \<open>The fraction after the integer digits: the digits that follow a dot, and the rest.\<close>

fun fraction :: "string \<Rightarrow> string \<times> string" where
  "fraction [] = ([], [])"
| "fraction (c # cs) =
     (if c = CHR ''.'' then (takeWhile is_digit cs, dropWhile is_digit cs) else ([], c # cs))"

definition scale10 :: "rat \<Rightarrow> int \<Rightarrow> rat" where
  "scale10 v e = (if 0 \<le> e then v * 10 ^ nat e else v / 10 ^ nat (- e))"

text \<open>
  \<open>parseFloat\<close>: leading white space is skipped, then the longest prefix that is a decimal
  literal (sign, \<open>Infinity\<close> or digits with an optional fraction and exponent) gives the
  value; NaN when no prefix is one.
\<close>

definition parseFloat :: "string \<Rightarrow> jsnum" where
  "parseFloat s =
     (case take_sign (dropWhile is_space s) of (negative, u) \<Rightarrow>
        if prefix ''Infinity'' u then (if negative then NegInf else PosInf)
        else
          (let ip = takeWhile is_digit u in
           case fraction (dropWhile is_digit u) of (fp, r) \<Rightarrow>
             if ip = [] \<and> fp = [] then NaN
             else
               (let v = scale10 (of_int (digits_val (ip @ fp)) / 10 ^ length fp) (exponent r)
                in Num (if negative then - v else v))))"

section \<open>parseAmount\<close>

text \<open>
  The argument is a string or \<open>undefined\<close> (\<open>None\<close>); the result is a number or \<open>null\<close>
  (\<open>None\<close>). \<open>!amountStr\<close> holds for \<open>undefined\<close> and for the empty string.
\<close>

definition parseAmount :: "string option \<Rightarrow> jsnum option" where
  "parseAmount a =
     (case a of
        None \<Rightarrow> None
      | Some amountStr \<Rightarrow>
          if amountStr = [] then None
          else
            (let isNegative = endsWith amountStr ''-'';
                 cleanAmount = replace_first amountStr ''-'' '''';
                 cleanAmount2 =
                   (if str_includes cleanAmount '','' \<and>
                       lastIndexOf cleanAmount (CHR '','') > lastIndexOf cleanAmount (CHR ''.'')
                    then replace_first (remove_all (CHR ''.'') cleanAmount) '','' ''.''
                    else remove_all (CHR '','') cleanAmount);
                 amount = parseFloat cleanAmount2
             in Some (if isNegative then neg amount else amount)))"

section \<open>Keyword classification\<close>

definition creditIndicators :: "string list" where
  "creditIndicators =
     [''credit note'', ''creditnote'', ''credit memo'', ''refund'',
      ''return'', ''adjustment'', ''reversal'']"

definition detectCreditNote :: "string \<Rightarrow> bool" where
  "detectCreditNote text =
     (let textLower = toLowerCase text
      in list_ex (\<lambda>indicator. str_includes textLower indicator) creditIndicators)"

section \<open>Regular expressions\<close>

text \<open>
  The expressions of the program are written as terms of \<open>re\<close>, one constructor for each
  construct of the JavaScript syntax, and run by a backtracking matcher that tries the
  alternatives in JavaScript's order.
\<close>

datatype cset =
    CLit char               \<comment> \<open>one character\<close>
  | CRange char char        \<comment> \<open>\<open>a-z\<close> inside brackets\<close>
  | CDigit                  \<comment> \<open>\<open>\d\<close>\<close>
  | CSpace                  \<comment> \<open>\<open>\s\<close>\<close>
  | CNonSpace               \<comment> \<open>\<open>\S\<close>\<close>
  | CWord                   \<comment> \<open>\<open>\w\<close>\<close>
  | CDot                    \<comment> \<open>\<open>.\<close>\<close>
  | COneOf "cset list"      \<comment> \<open>\<open>[...]\<close>\<close>

datatype re =
    Chr cset                \<comment> \<open>one character of a set\<close>
  | Eps                     \<comment> \<open>the empty expression\<close>
  | Seq re re               \<comment> \<open>\<open>ab\<close>\<close>
  | Alt re re               \<comment> \<open>\<open>a|b\<close>\<close>
  | Star re                 \<comment> \<open>\<open>a*\<close>\<close>
  | LazyStar re             \<comment> \<open>\<open>a*?\<close>\<close>
  | Grp nat re              \<comment> \<open>capture group number n\<close>
  | WordB                   \<comment> \<open>\<open>\b\<close>\<close>
  | Bol                     \<comment> \<open>\<open>^\<close>\<close>
  | Eol                     \<comment> \<open>\<open>$\<close>\<close>
  | NotAhead re             \<comment> \<open>\<open>(?!a)\<close>\<close>

datatype flags = Flags (icase: bool) (multiline: bool)

text \<open>
  With the \<open>i\<close> flag two characters are equal when their canonical forms, the upper-case
  mappings, are; a set matches a character when it has a member equal to it in this sense.
  The members equal to \<open>c\<close> are \<open>c\<close>, its upper case and its lower case.
\<close>

definition in_range :: "char \<Rightarrow> char \<Rightarrow> char \<Rightarrow> bool" where
  "in_range lo hi c = (code lo \<le> code c \<and> code c \<le> code hi)"

fun cset_match :: "bool \<Rightarrow> cset \<Rightarrow> char \<Rightarrow> bool" where
  "cset_match ic (CLit d) c = (if ic then upper_char c = upper_char d else c = d)"
| "cset_match ic (CRange lo hi) c =
     (if ic then in_range lo hi c \<or> in_range lo hi (upper_char c) \<or> in_range lo hi (lower_char c)
      else in_range lo hi c)"
| "cset_match ic CDigit c = is_digit c"
| "cset_match ic CSpace c = is_space c"
| "cset_match ic CNonSpace c = (\<not> is_space c)"
| "cset_match ic CWord c = is_word c"
| "cset_match ic CDot c = (\<not> is_line_terminator c)"
| "cset_match ic (COneOf l) c = list_ex (\<lambda>x. cset_match ic x c) l"

text \<open>
  A matcher state: the characters before the current position (the nearest first), the
  characters from it on, and the captures made so far (the latest binding of a group first).
\<close>

datatype mstate = MState (before: string) (after: string) (groups: "(nat \<times> string) list")

definition at_word_boundary :: "mstate \<Rightarrow> bool" where
  "at_word_boundary st =
     ((case before st of [] \<Rightarrow> False | c # _ \<Rightarrow> is_word c) \<noteq>
      (case after st of [] \<Rightarrow> False | c # _ \<Rightarrow> is_word c))"

definition at_line_start :: "flags \<Rightarrow> mstate \<Rightarrow> bool" where
  "at_line_start f st =
     (case before st of [] \<Rightarrow> True | c # _ \<Rightarrow> multiline f \<and> is_line_terminator c)"

definition at_line_end :: "flags \<Rightarrow> mstate \<Rightarrow> bool" where
  "at_line_end f st =
     (case after st of [] \<Rightarrow> True | c # _ \<Rightarrow> multiline f \<and> is_line_terminator c)"

text \<open>
  The matcher keeps the work still to do in a stack of frames: an expression to match, the
  end of a capture group (with the text that was ahead when the group began), or the end of
  one iteration of a star (with the star and the number of characters that were ahead when
  the iteration began). An iteration that consumes nothing is rejected, as in JavaScript.
\<close>

datatype frame = FRe re | FGrp nat string | FLoop re nat

fun rsize :: "re \<Rightarrow> nat" where
  "rsize (Seq a b) = Suc (rsize a + rsize b)"
| "rsize (Alt a b) = Suc (rsize a + rsize b)"
| "rsize (Star a) = Suc (Suc (rsize a))"
| "rsize (LazyStar a) = Suc (Suc (rsize a))"
| "rsize (Grp n a) = Suc (Suc (rsize a))"
| "rsize (NotAhead a) = Suc (rsize a)"
| "rsize _ = 1"

fun weight :: "nat \<Rightarrow> frame list \<Rightarrow> nat" where
  "weight l [] = 0"
| "weight l (FRe r # stk) = rsize r + weight l stk"
| "weight l (FGrp n s # stk) = Suc (weight l stk)"
| "weight l (FLoop r n # stk) = (if l < n then Suc (rsize r) else 0) + weight l stk"

text \<open>
  \<open>ms f stk st\<close> runs the frames of \<open>stk\<close> from the state \<open>st\<close> and returns the first state,
  in JavaScript's priority order, in which the stack has been emptied: the left branch of
  an alternative before the right one, one more iteration of a greedy star before leaving
  it, and leaving a lazy star before one more iteration.
\<close>

function (sequential) ms :: "flags \<Rightarrow> frame list \<Rightarrow> mstate \<Rightarrow> mstate option" where
  "ms f [] st = Some st"
| "ms f (FRe (Chr cs) # stk) st =
     (case after st of
        [] \<Rightarrow> None
      | c # r \<Rightarrow> if cset_match (icase f) cs c then ms f stk (MState (c # before st) r (groups st))
                 else None)"
| "ms f (FRe Eps # stk) st = ms f stk st"
| "ms f (FRe (Seq r1 r2) # stk) st = ms f (FRe r1 # FRe r2 # stk) st"
| "ms f (FRe (Alt r1 r2) # stk) st =
     (case ms f (FRe r1 # stk) st of Some x \<Rightarrow> Some x | None \<Rightarrow> ms f (FRe r2 # stk) st)"
| "ms f (FRe (Star r) # stk) st =
     (case ms f (FRe r # FLoop (Star r) (length (after st)) # stk) st of
        Some x \<Rightarrow> Some x
      | None \<Rightarrow> ms f stk st)"
| "ms f (FRe (LazyStar r) # stk) st =
     (case ms f stk st of
        Some x \<Rightarrow> Some x
      | None \<Rightarrow> ms f (FRe r # FLoop (LazyStar r) (length (after st)) # stk) st)"
| "ms f (FLoop r n # stk) st = (if length (after st) < n then ms f (FRe r # stk) st else None)"
| "ms f (FRe (Grp n r) # stk) st = ms f (FRe r # FGrp n (after st) # stk) st"
| "ms f (FGrp n start # stk) st =
     ms f stk (MState (before st) (after st)
                 ((n, take (length start - length (after st)) start) # groups st))"
| "ms f (FRe WordB # stk) st = (if at_word_boundary st then ms f stk st else None)"
| "ms f (FRe Bol # stk) st = (if at_line_start f st then ms f stk st else None)"
| "ms f (FRe Eol # stk) st = (if at_line_end f st then ms f stk st else None)"
| "ms f (FRe (NotAhead r) # stk) st =
     (case ms f [FRe r] st of None \<Rightarrow> ms f stk st | Some x \<Rightarrow> None)"
  by pat_completeness auto
termination
  by (relation "measures [\<lambda>(f, stk, st). length (after st),
                          \<lambda>(f, stk, st). weight (length (after st)) stk]") auto

subsection \<open>Derived forms\<close>

text \<open>A literal text, \<open>a+\<close>, \<open>a?\<close>, \<open>a{n}\<close>, \<open>a{0,n}\<close>, \<open>a{n,m}\<close>, \<open>a{n,}\<close> and the lazy
  \<open>a{0,n}?\<close>. The bounded forms are unfolded into sequences and alternatives, which
  agrees with JavaScript for a body that cannot match the empty text; every body
  quantified here consumes at least one character.\<close>

fun str :: "string \<Rightarrow> re" where
  "str [] = Eps"
| "str [c] = Chr (CLit c)"
| "str (c # cs) = Seq (Chr (CLit c)) (str cs)"

definition many1 :: "re \<Rightarrow> re" where
  "many1 r = Seq r (Star r)"

definition opt :: "re \<Rightarrow> re" where
  "opt r = Alt r Eps"

fun exactly :: "nat \<Rightarrow> re \<Rightarrow> re" where
  "exactly 0 r = Eps"
| "exactly (Suc 0) r = r"
| "exactly (Suc n) r = Seq r (exactly n r)"

fun at_most :: "nat \<Rightarrow> re \<Rightarrow> re" where
  "at_most 0 r = Eps"
| "at_most (Suc n) r = Alt (Seq r (at_most n r)) Eps"

fun at_most_lazy :: "nat \<Rightarrow> re \<Rightarrow> re" where
  "at_most_lazy 0 r = Eps"
| "at_most_lazy (Suc n) r = Alt Eps (Seq r (at_most_lazy n r))"

definition from_to :: "nat \<Rightarrow> nat \<Rightarrow> re \<Rightarrow> re" where
  "from_to lo hi r = Seq (exactly lo r) (at_most (hi - lo) r)"

definition at_least :: "nat \<Rightarrow> re \<Rightarrow> re" where
  "at_least n r = Seq (exactly n r) (Star r)"

text \<open>A sequence of several expressions.\<close>

fun seqs :: "re list \<Rightarrow> re" where
  "seqs [] = Eps"
| "seqs [r] = r"
| "seqs (r # rs) = Seq r (seqs rs)"

fun alts :: "re list \<Rightarrow> re" where
  "alts [] = Eps"
| "alts [r] = r"
| "alts (r # rs) = Alt r (alts rs)"

subsection \<open>The methods that run an expression\<close>

text \<open>A match: its index, the matched text and the captures.\<close>

datatype rmatch = RMatch (m_index: nat) (m_text: string) (m_groups: "(nat \<times> string) list")

text \<open>\<open>match[n]\<close>: the text of group \<open>n\<close>, \<open>None\<close> when the group took no part.\<close>

definition match_group :: "rmatch \<Rightarrow> nat \<Rightarrow> string option" where
  "match_group mr n = map_of (m_groups mr) n"

text \<open>The match at the position of a state, if there is one.\<close>

definition match_here :: "flags \<Rightarrow> re \<Rightarrow> string \<Rightarrow> string \<Rightarrow> rmatch option" where
  "match_here f r bef s =
     (case ms f [FRe r] (MState bef s []) of
        None \<Rightarrow> None
      | Some st \<Rightarrow> Some (RMatch (length bef) (take (length s - length (after st)) s) (groups st)))"

text \<open>The leftmost match at or after the current position.\<close>

fun exec_from :: "flags \<Rightarrow> re \<Rightarrow> string \<Rightarrow> string \<Rightarrow> rmatch option" where
  "exec_from f r bef [] = match_here f r bef []"
| "exec_from f r bef (c # cs) =
     (case match_here f r bef (c # cs) of
        Some mr \<Rightarrow> Some mr
      | None \<Rightarrow> exec_from f r (c # bef) cs)"

text \<open>\<open>s.match(r)\<close> for an expression without the \<open>g\<close> flag, and \<open>r.exec(s)\<close> with
  \<open>lastIndex\<close> 0: the leftmost match, or \<open>null\<close>.\<close>

definition re_exec :: "flags \<Rightarrow> re \<Rightarrow> string \<Rightarrow> rmatch option" where
  "re_exec f r s = exec_from f r [] s"

text \<open>\<open>r.test(s)\<close> for an expression without the \<open>g\<close> flag.\<close>

definition re_test :: "flags \<Rightarrow> re \<Rightarrow> string \<Rightarrow> bool" where
  "re_test f r s = (re_exec f r s \<noteq> None)"

text \<open>
  \<open>s.match(r)\<close> for an expression with the \<open>g\<close> flag: the texts of all matches from left to
  right, each search starting where the previous match ended (one further after an empty
  match); the empty list stands for \<open>null\<close>. \<open>skip\<close> counts the positions still inside the
  previous match.
\<close>

fun match_all_from :: "flags \<Rightarrow> re \<Rightarrow> string \<Rightarrow> string \<Rightarrow> nat \<Rightarrow> string list" where
  "match_all_from f r bef [] skip =
     (if skip = 0 then (case match_here f r bef [] of None \<Rightarrow> [] | Some mr \<Rightarrow> [m_text mr]) else [])"
| "match_all_from f r bef (c # cs) skip =
     (if skip > 0 then match_all_from f r (c # bef) cs (skip - 1)
      else
        (case match_here f r bef (c # cs) of
           None \<Rightarrow> match_all_from f r (c # bef) cs 0
         | Some mr \<Rightarrow> m_text mr # match_all_from f r (c # bef) cs (length (m_text mr) - 1)))"

definition match_all :: "flags \<Rightarrow> re \<Rightarrow> string \<Rightarrow> string list" where
  "match_all f r s = match_all_from f r [] s 0"

text \<open>
  \<open>s.split(r)\<close> for an expression without groups: the pieces from_to the matches. A match
  that is empty and starts where the previous piece ended does not split.
\<close>

fun split_from :: "flags \<Rightarrow> re \<Rightarrow> string \<Rightarrow> string \<Rightarrow> string \<Rightarrow> nat \<Rightarrow> string list" where
  "split_from f r bef [] cur skip = [rev cur]"
| "split_from f r bef (c # cs) cur skip =
     (if skip > 0 then split_from f r (c # bef) cs cur (skip - 1)
      else
        (case match_here f r bef (c # cs) of
           None \<Rightarrow> split_from f r (c # bef) cs (c # cur) 0
         | Some mr \<Rightarrow>
             if m_text mr = [] then
               (if cur = [] then split_from f r (c # bef) cs [c] 0
                else rev cur # split_from f r (c # bef) cs [c] 0)
             else rev cur # split_from f r (c # bef) cs [] (length (m_text mr) - 1)))"

definition split_re :: "flags \<Rightarrow> re \<Rightarrow> string \<Rightarrow> string list" where
  "split_re f r s =
     (if s = [] then (if match_here f r [] [] = None then [[]] else [])
      else split_from f r [] s [] 0)"

text \<open>\<open>s.replace(r, t)\<close> for an expression without the \<open>g\<close> flag and a replacement text
  without \<open>$\<close>: the leftmost match is replaced.\<close>

definition re_replace :: "flags \<Rightarrow> re \<Rightarrow> string \<Rightarrow> string \<Rightarrow> string" where
  "re_replace f r t s =
     (case re_exec f r s of
        None \<Rightarrow> s
      | Some mr \<Rightarrow> take (m_index mr) s @ t @ drop (m_index mr + length (m_text mr)) s)"

section \<open>The expressions of the program\<close>

text \<open>Shorthand for the pieces that recur in the program's expressions.\<close>

definition lit :: "char \<Rightarrow> re" where
  "lit c = Chr (CLit c)"

definition digit :: re where
  "digit = Chr CDigit"                       \<comment> \<open>\<open>\d\<close>\<close>

definition space :: re where
  "space = Chr CSpace"                       \<comment> \<open>\<open>\s\<close>\<close>

definition any_char :: re where
  "any_char = Chr CDot"                      \<comment> \<open>\<open>.\<close>\<close>

definition dot_slash :: re where
  "dot_slash = Chr (COneOf [CLit (CHR ''.''), CLit (CHR ''/'')])"     \<comment> \<open>\<open>[./]\<close>\<close>

definition dot_comma :: re where
  "dot_comma = Chr (COneOf [CLit (CHR ''.''), CLit (CHR '','')])"     \<comment> \<open>\<open>[.,]\<close>\<close>

definition upper_AZ :: re where
  "upper_AZ = Chr (COneOf [CRange (CHR ''A'') (CHR ''Z'')])"          \<comment> \<open>\<open>[A-Z]\<close>\<close>

definition upper_digit :: re where
  "upper_digit = Chr (COneOf [CRange (CHR ''A'') (CHR ''Z''), CRange (CHR ''0'') (CHR ''9'')])"
                                             \<comment> \<open>\<open>[A-Z0-9]\<close>\<close>

definition digit09 :: re where
  "digit09 = Chr (COneOf [CRange (CHR ''0'') (CHR ''9'')])"           \<comment> \<open>\<open>[0-9]\<close>\<close>

definition amount_char :: re where
  "amount_char = Chr (COneOf [CRange (CHR ''0'') (CHR ''9''), CLit (CHR ''.''), CLit (CHR '','')])"
                                             \<comment> \<open>\<open>[0-9.,]\<close>\<close>

definition d_dot_comma :: re where
  "d_dot_comma = Chr (COneOf [CDigit, CLit (CHR ''.''), CLit (CHR '','')])"
                                             \<comment> \<open>\<open>[\d.,]\<close>\<close>

definition any_unit :: re where
  "any_unit = Chr (COneOf [CSpace, CNonSpace])"                       \<comment> \<open>\<open>[\s\S]\<close>\<close>

definition no_flags :: flags where
  "no_flags = Flags False False"

definition flag_i :: flags where
  "flag_i = Flags True False"

definition flag_im :: flags where
  "flag_im = Flags True True"

text \<open>\<open>\d+[.,]?\d*%\([A-Z0-9]+\)\<close>, the VAT anchor.\<close>

definition vat_anchor :: re where
  "vat_anchor =
     seqs [many1 digit, opt dot_comma, Star digit, lit (CHR ''%''), lit (CHR ''(''),
           many1 upper_digit, lit (CHR '')'')]"

section \<open>extractField\<close>

text \<open>\<open>\d{1,2}[./]\d{1,2}[./]\d{4}\<close>\<close>

definition date_token :: re where
  "date_token = seqs [from_to 1 2 digit, dot_slash, from_to 1 2 digit, dot_slash, exactly 4 digit]"

text \<open>\<open>\d{1,2}[./]\d{4}(?:\s*-\s*\d{1,2}[./]\d{4})?\<close>\<close>

definition period_token :: re where
  "period_token =
     seqs [from_to 1 2 digit, dot_slash, exactly 4 digit,
           opt (seqs [Star space, lit (CHR ''-''), Star space, from_to 1 2 digit, dot_slash,
                      exactly 4 digit])]"

text \<open>\<open>[0-9][0-9]?[./]\d{4}(?:\s*-\s*[0-9][0-9]?[./]\d{4})?\<close>\<close>

definition period_token2 :: re where
  "period_token2 =
     seqs [digit09, opt digit09, dot_slash, exactly 4 digit,
           opt (seqs [Star space, lit (CHR ''-''), Star space, digit09, opt digit09, dot_slash,
                      exactly 4 digit])]"

text \<open>\<open>\s*:?\s*\<close>\<close>

definition colon_gap :: re where
  "colon_gap = seqs [Star space, opt (lit (CHR '':'')), Star space]"

text \<open>The table \<open>patterns\<close>: for a field type its expressions in order; a field type that
  is not in the table has none.\<close>

definition patterns :: "string \<Rightarrow> (flags \<times> re) list" where
  "patterns fieldType =
     (if fieldType = ''projectId'' then
        [(no_flags, Grp 1 (seqs [exactly 2 upper_AZ, exactly 2 digit, str ''-PRO'', exactly 7 digit])),
         (no_flags, Grp 1 (seqs [str ''PRO'', exactly 7 digit])),
         (no_flags, Grp 1 (seqs [exactly 2 upper_AZ, str ''-PRO'', exactly 7 digit]))]
      else if fieldType = ''invoiceNumber'' then
        [(flag_i, seqs [str ''Invoice'', many1 space, str ''No'', opt (lit (CHR ''.'')), colon_gap,
                        Grp 1 (many1 digit)]),
         (flag_i, seqs [str ''Credit'', many1 space, str ''Note'', many1 space, str ''No'',
                        opt (lit (CHR ''.'')), colon_gap, Grp 1 (many1 digit)]),
         (flag_i, seqs [str ''Invoice'', many1 space, str ''Number'', colon_gap, Grp 1 (many1 digit)])]
      else if fieldType = ''customerId'' then
        [(flag_i, seqs [str ''Customer'', many1 space, str ''ID'', colon_gap, Grp 1 (many1 digit)]),
         (flag_i, seqs [str ''Client'', many1 space, str ''ID'', colon_gap, Grp 1 (many1 digit)])]
      else if fieldType = ''dateOfInvoice'' then
        [(flag_i, seqs [str ''Date'', colon_gap, Grp 1 date_token]),
         (flag_i, seqs [str ''Invoice'', many1 space, str ''Date'', colon_gap, Grp 1 date_token])]
      else if fieldType = ''currency'' then
        [(flag_i, seqs [str ''Currency'', colon_gap, Grp 1 (exactly 3 upper_AZ)]),
         (no_flags, Grp 1 (alts [str ''EUR'', str ''USD'', str ''GBP'']))]
      else if fieldType = ''vat'' then
        [(flag_i, seqs [str ''VAT'', Star space, str ''ID'', colon_gap, Grp 1 (many1 upper_digit)]),
         (flag_i, seqs [str ''BTW'', colon_gap, Grp 1 (many1 upper_digit)])]
      else if fieldType = ''serviceProvisionPeriod'' then
        [(flag_i, seqs [str ''Service'', many1 space, str ''Provision'', many1 space, str ''Period'',
                        colon_gap, Grp 1 period_token]),
         (flag_i, seqs [str ''Period'', colon_gap, Grp 1 period_token]),
         (flag_i, Grp 1 (seqs [from_to 3 9 upper_AZ, many1 space, exactly 4 digit])),
         (flag_i, seqs [str ''Service'', LazyStar any_char, str ''Period'', LazyStar any_char,
                        opt (lit (CHR '':'')), Star space, Grp 1 period_token2]),
         (flag_i, seqs [str ''Provision'', LazyStar any_char, str ''Period'', LazyStar any_char,
                        opt (lit (CHR '':'')), Star space, Grp 1 period_token2])]
      else [])"

text \<open>The loop over the expressions of a field: the first that matches gives its group 1.\<close>

fun first_match :: "(flags \<times> re) list \<Rightarrow> string \<Rightarrow> string option" where
  "first_match [] text = None"
| "first_match ((f, r) # ps) text =
     (case re_exec f r text of
        Some mr \<Rightarrow> match_group mr 1
      | None \<Rightarrow> first_match ps text)"

definition extractField :: "string \<Rightarrow> string \<Rightarrow> string option" where
  "extractField text fieldType = first_match (patterns fieldType) text"

section \<open>extractMonthFromDate\<close>

definition months :: "string \<Rightarrow> string option" where
  "months =
     [''01'' \<mapsto> ''January'', ''02'' \<mapsto> ''February'', ''03'' \<mapsto> ''March'', ''04'' \<mapsto> ''April'',
      ''05'' \<mapsto> ''May'', ''06'' \<mapsto> ''June'', ''07'' \<mapsto> ''July'', ''08'' \<mapsto> ''August'',
      ''09'' \<mapsto> ''September'', ''10'' \<mapsto> ''October'', ''11'' \<mapsto> ''November'', ''12'' \<mapsto> ''December'']"

text \<open>\<open>s.padStart(2, '0')\<close>\<close>

definition padStart2 :: "string \<Rightarrow> string" where
  "padStart2 s = replicate (2 - length s) (CHR ''0'') @ s"

definition extractMonthFromDate :: "string option \<Rightarrow> string option" where
  "extractMonthFromDate d =
     (case d of
        None \<Rightarrow> None
      | Some dateStr \<Rightarrow>
          if dateStr = [] then None
          else
            (let parts = split_re no_flags
                           (Chr (COneOf [CLit (CHR ''.''), CLit (CHR ''/''), CLit (CHR ''-'')])) dateStr
             in if length parts \<ge> 3 then months (padStart2 (parts ! 1)) else None))"

section \<open>classifyCostType\<close>

definition classifyCostType :: "string \<Rightarrow> string" where
  "classifyCostType description =
     (let descLower = toLowerCase description in
      if str_includes descLower ''application'' \<or> str_includes descLower ''infrastructure''
      then ''Internal''
      else if str_includes descLower ''external'' \<or> str_includes descLower ''other''
      then ''External''
      else if str_includes descLower ''consultant'' \<or> str_includes descLower ''service'' \<or>
              str_includes descLower ''support''
      then ''External''
      else ''Internal'')"

section \<open>extractServicePeriodFromPage\<close>

text \<open>\<open>parseInt(s, 10)\<close>: leading white space, an optional sign and the digits that follow;
  \<open>None\<close> stands for NaN.\<close>

definition parseInt10 :: "string \<Rightarrow> int option" where
  "parseInt10 s =
     (case take_sign (dropWhile is_space s) of (negative, u) \<Rightarrow>
        (let ds = takeWhile is_digit u in
         if ds = [] then None
         else Some (if negative then - digits_val ds else digits_val ds)))"

definition monthMap :: "string \<Rightarrow> string option" where
  "monthMap =
     [''JAN'' \<mapsto> ''January'', ''FEB'' \<mapsto> ''February'', ''MAR'' \<mapsto> ''March'',
      ''APR'' \<mapsto> ''April'', ''MAY'' \<mapsto> ''May'', ''JUN'' \<mapsto> ''June'',
      ''JUL'' \<mapsto> ''July'', ''AUG'' \<mapsto> ''August'', ''SEP'' \<mapsto> ''September'',
      ''OCT'' \<mapsto> ''October'', ''NOV'' \<mapsto> ''November'', ''DEC'' \<mapsto> ''December'']"

definition monthNames :: "string list" where
  "monthNames =
     ['''', ''January'', ''February'', ''March'', ''April'', ''May'', ''June'',
      ''July'', ''August'', ''September'', ''October'', ''November'', ''December'']"

text \<open>\<open>/\b(JAN|FEB|MAR|APR|MAY|JUN|JUL|AUG|SEP|OCT|NOV|DEC)\s+(\d{4})\b/i\<close>\<close>

definition monthPattern :: re where
  "monthPattern =
     seqs [WordB,
           Grp 1 (alts [str ''JAN'', str ''FEB'', str ''MAR'', str ''APR'', str ''MAY'', str ''JUN'',
                        str ''JUL'', str ''AUG'', str ''SEP'', str ''OCT'', str ''NOV'', str ''DEC'']),
           many1 space, Grp 2 (exactly 4 digit), WordB]"

text \<open>\<open>/Service.*?Period.*?:?\s*(\d{1,2})[./](\d{4})/i\<close> and \<open>/\b(\d{1,2})[./](\d{4})\b/\<close>\<close>

definition fallbackPatterns :: "(flags \<times> re) list" where
  "fallbackPatterns =
     [(flag_i, seqs [str ''Service'', LazyStar any_char, str ''Period'', LazyStar any_char,
                     opt (lit (CHR '':'')), Star space, Grp 1 (from_to 1 2 digit), dot_slash,
                     Grp 2 (exactly 4 digit)]),
      (no_flags, seqs [WordB, Grp 1 (from_to 1 2 digit), dot_slash, Grp 2 (exactly 4 digit), WordB])]"

text \<open>A template literal prints an undefined value as the word \<open>undefined\<close>.\<close>

definition show_str :: "string option \<Rightarrow> string" where
  "show_str v = (case v of None \<Rightarrow> ''undefined'' | Some s \<Rightarrow> s)"

text \<open>The loop over the fallback expressions: a match whose month is in 1..12 returns, any
  other match lets the loop go on with the next expression.\<close>

fun fallback_period :: "(flags \<times> re) list \<Rightarrow> string \<Rightarrow> string option" where
  "fallback_period [] pageText = None"
| "fallback_period ((f, r) # ps) pageText =
     (case re_exec f r pageText of
        None \<Rightarrow> fallback_period ps pageText
      | Some fallbackMatch \<Rightarrow>
          (case parseInt10 (show_str (match_group fallbackMatch 1)) of
             None \<Rightarrow> fallback_period ps pageText
           | Some month \<Rightarrow>
               if month \<ge> 1 \<and> month \<le> 12
               then Some (monthNames ! nat month @ '' '' @ show_str (match_group fallbackMatch 2))
               else fallback_period ps pageText))"

definition extractServicePeriodFromPage :: "string \<Rightarrow> string" where
  "extractServicePeriodFromPage pageText =
     (case re_exec flag_i monthPattern pageText of
        Some mr \<Rightarrow>
          (let monthAbbr = toUpperCase (show_str (match_group mr 1));
               year = show_str (match_group mr 2);
               fullMonthName = monthMap monthAbbr
           in show_str fullMonthName @ '' '' @ year)
      | None \<Rightarrow>
          (case fallback_period fallbackPatterns pageText of
             Some servicePeriod \<Rightarrow> servicePeriod
           | None \<Rightarrow> ''Unknown Period''))"

section \<open>Arrays\<close>

text \<open>
  \<open>xs.sort(cmp)\<close>: the sort is stable, and with a comparator that orders consistently every
  stable sort gives the same array; it is modelled by insertion from the right end, which
  places an element before the first element it does not come after.
\<close>

fun insert_by :: "('a \<Rightarrow> 'a \<Rightarrow> int) \<Rightarrow> 'a \<Rightarrow> 'a list \<Rightarrow> 'a list" where
  "insert_by cmp x [] = [x]"
| "insert_by cmp x (y # ys) = (if cmp x y \<le> 0 then x # y # ys else y # insert_by cmp x ys)"

definition sort_by :: "('a \<Rightarrow> 'a \<Rightarrow> int) \<Rightarrow> 'a list \<Rightarrow> 'a list" where
  "sort_by cmp xs = foldr (insert_by cmp) xs []"

text \<open>\<open>xs.findIndex(p)\<close> with the index passed to the predicate: -1 when no element passes.\<close>

fun find_index_from :: "(string \<Rightarrow> int \<Rightarrow> bool) \<Rightarrow> string list \<Rightarrow> int \<Rightarrow> int" where
  "find_index_from p [] i = -1"
| "find_index_from p (x # xs) i = (if p x i then i else find_index_from p xs (i + 1))"

definition findIndex :: "(string \<Rightarrow> int \<Rightarrow> bool) \<Rightarrow> string list \<Rightarrow> int" where
  "findIndex p xs = find_index_from p xs 0"

text \<open>\<open>xs[i]\<close>: \<open>undefined\<close> outside the array.\<close>

definition elem_at :: "string list \<Rightarrow> int \<Rightarrow> string option" where
  "elem_at xs i = (if 0 \<le> i \<and> i < int (length xs) then Some (xs ! nat i) else None)"

section \<open>extractInvoiceTotal\<close>

record potential_total =
  pt_amount :: jsnum
  pt_type :: string
  pt_line :: string
  pt_priority :: int

definition newline :: char where
  "newline = CHR 0x0A"

text \<open>\<open>/\b(Total|Subtotal.*\(Net\)|Subtotal)\b/i\<close>\<close>

definition total_line_re :: re where
  "total_line_re =
     seqs [WordB,
           Grp 1 (alts [str ''Total'',
                        seqs [str ''Subtotal'', Star any_char, str ''(Net)''],
                        str ''Subtotal'']),
           WordB]"

text \<open>\<open>/Position.*Total/i\<close>\<close>

definition position_total_re :: re where
  "position_total_re = seqs [str ''Position'', Star any_char, str ''Total'']"

text \<open>\<open>/VAT\s+[0-9.,]+%/i\<close>\<close>

definition vat_line_re :: re where
  "vat_line_re = seqs [str ''VAT'', many1 space, many1 amount_char, lit (CHR ''%'')]"

text \<open>\<open>/\b(Total|Subtotal.*?\(Net\)?)\b/i\<close>\<close>

definition total_word_re :: re where
  "total_word_re =
     seqs [WordB,
           Grp 1 (alts [str ''Total'',
                        seqs [str ''Subtotal'', LazyStar any_char, str ''(Net'', opt (lit (CHR '')''))]]),
           WordB]"

text \<open>\<open>/\bTotal\b/i\<close> and \<open>/Subtotal/i\<close>\<close>

definition main_total_re :: re where
  "main_total_re = seqs [WordB, str ''Total'', WordB]"

definition subtotal_re :: re where
  "subtotal_re = str ''Subtotal''"

text \<open>\<open>/([0-9]{1,3}(?:[.,][0-9]{3})*[.,][0-9]{2}[-]?)/g\<close>\<close>

definition amount_token_re :: re where
  "amount_token_re =
     Grp 1 (seqs [from_to 1 3 digit09, Star (seqs [dot_comma, exactly 3 digit09]), dot_comma,
                  exactly 2 digit09, opt (Chr (COneOf [CLit (CHR ''-'')]))])"

text \<open>\<open>x || 0\<close> for a number or \<open>null\<close>.\<close>

definition or_zero :: "jsnum option \<Rightarrow> jsnum" where
  "or_zero v = (case v of None \<Rightarrow> Num 0 | Some n \<Rightarrow> if truthy n then n else Num 0)"

text \<open>The loop over the amounts of the total line itself: an amount counts when its text
  is found at or after the end of the total word and less than 50 characters from it, and
  its value is above 1 in absolute value; the largest in absolute value is kept.\<close>

fun best_same_line :: "string \<Rightarrow> int \<Rightarrow> string list \<Rightarrow> jsnum option \<Rightarrow> jsnum option" where
  "best_same_line line totalWordEnd [] bestAmount = bestAmount"
| "best_same_line line totalWordEnd (amountStr # rest) bestAmount =
     (let amountIndex = indexOf line amountStr totalWordEnd in
      if amountIndex \<noteq> -1 \<and> amountIndex - totalWordEnd < 50 then
        (case parseAmount (Some amountStr) of
           None \<Rightarrow> best_same_line line totalWordEnd rest bestAmount
         | Some amount \<Rightarrow>
             if gt (math_abs amount) (Num 1) \<and> gt (math_abs amount) (math_abs (or_zero bestAmount))
             then best_same_line line totalWordEnd rest (Some amount)
             else best_same_line line totalWordEnd rest bestAmount)
      else best_same_line line totalWordEnd rest bestAmount)"

text \<open>The loop over the amounts of a following line: the largest in absolute value.\<close>

fun largest_amount :: "string list \<Rightarrow> jsnum option \<Rightarrow> jsnum option" where
  "largest_amount [] largestAmount = largestAmount"
| "largest_amount (amountStr # rest) largestAmount =
     (case parseAmount (Some amountStr) of
        None \<Rightarrow> largest_amount rest largestAmount
      | Some amount \<Rightarrow>
          if gt (math_abs amount) (math_abs (or_zero largestAmount))
          then largest_amount rest (Some amount)
          else largest_amount rest largestAmount)"

text \<open>The loop over the (at most two) lines after a total line; it stops at the first line
  that gives an amount above 1 in absolute value.\<close>

fun next_lines :: "string \<Rightarrow> bool \<Rightarrow> string list \<Rightarrow> potential_total option" where
  "next_lines line isMainTotal [] = None"
| "next_lines line isMainTotal (checkLine # others) =
     (if re_test flag_i vat_line_re checkLine then next_lines line isMainTotal others
      else
        (let amountMatch = match_all no_flags amount_token_re checkLine in
         if amountMatch \<noteq> [] then
           (case largest_amount amountMatch None of
              None \<Rightarrow> next_lines line isMainTotal others
            | Some largestAmount \<Rightarrow>
                if gt (math_abs largestAmount) (Num 1) then
                  Some \<lparr>pt_amount = largestAmount,
                        pt_type = (if isMainTotal then ''Total'' else ''Subtotal''),
                        pt_line = trim line @ '' -> '' @ trim checkLine,
                        pt_priority = (if isMainTotal then 1 else 2)\<rparr>
                else next_lines line isMainTotal others)
         else next_lines line isMainTotal others))"

text \<open>The loop over the lines of the page; \<open>rest\<close> holds the lines after the current one.\<close>

fun scan_lines :: "string list \<Rightarrow> potential_total list \<Rightarrow> potential_total list" where
  "scan_lines [] potentialTotals = potentialTotals"
| "scan_lines (line # rest) potentialTotals =
     (if re_test flag_i total_line_re line \<and> \<not> re_test flag_i position_total_re line then
        (if re_test flag_i vat_line_re line then scan_lines rest potentialTotals
         else
           (let totalWordMatch = re_exec flag_i total_word_re line;
                isMainTotal = (re_test flag_i main_total_re line \<and> \<not> re_test flag_i subtotal_re line);
                sameLineMatch = match_all no_flags amount_token_re line;
                potentialTotals1 =
                  (case totalWordMatch of
                     None \<Rightarrow> potentialTotals
                   | Some tw \<Rightarrow>
                       if sameLineMatch \<noteq> [] then
                         (let totalWordIndex = indexOf line (m_text tw) 0;
                              totalWordEnd = totalWordIndex + int (length (m_text tw))
                          in case best_same_line line totalWordEnd sameLineMatch None of
                               None \<Rightarrow> potentialTotals
                             | Some bestAmount \<Rightarrow>
                                 potentialTotals @
                                 [\<lparr>pt_amount = bestAmount,
                                   pt_type = (if isMainTotal then ''Total'' else ''Subtotal''),
                                   pt_line = trim line,
                                   pt_priority = (if isMainTotal then 1 else 2)\<rparr>])
                       else potentialTotals);
                potentialTotals2 =
                  (if sameLineMatch = [] \<or> \<not> list_ex (\<lambda>t. pt_line t = trim line) potentialTotals1
                   then (case next_lines line isMainTotal (take 2 rest) of
                           None \<Rightarrow> potentialTotals1
                         | Some pt \<Rightarrow> potentialTotals1 @ [pt])
                   else potentialTotals1)
            in scan_lines rest potentialTotals2))
      else scan_lines rest potentialTotals)"

text \<open>\<open>[0-9.,]+[-]?\<close> in a group, the amount of every fallback expression.\<close>

definition amount_group :: re where
  "amount_group = Grp 1 (seqs [many1 amount_char, opt (Chr (COneOf [CLit (CHR ''-'')]))])"

text \<open>\<open>[0-9.,]{4,}[-]?\<close> in a group.\<close>

definition long_amount_group :: re where
  "long_amount_group = Grp 1 (seqs [at_least 4 amount_char, opt (Chr (COneOf [CLit (CHR ''-'')]))])"

definition totalPatterns :: "(flags \<times> re) list" where
  "totalPatterns =
     [(flag_i, seqs [str ''Total'', many1 space, amount_group]),
      (flag_i, seqs [str ''Total'', Star space, opt (lit (CHR '':'')), Star space, amount_group]),
      (flag_i, seqs [str ''Subtotal'', many1 space, amount_group]),
      (flag_i, seqs [str ''Grand'', many1 space, str ''Total'', many1 space, amount_group]),
      (flag_i, seqs [str ''Subtotal'', Star space, str ''(Net)'', many1 space, amount_group]),
      (flag_i, seqs [many1 (Chr CWord), many1 space, many1 digit, many1 space, str ''Subtotal'',
                     Star space, str ''(Net)'', many1 space, amount_group]),
      (flag_i, seqs [str ''Total'', at_most_lazy 50 any_unit, long_amount_group]),
      (flag_i, seqs [str ''Subtotal'', at_most_lazy 50 any_unit, long_amount_group])]"

text \<open>The loop over the fallback expressions: the last match of the first expression whose
  last match holds an amount that is neither \<open>null\<close> nor zero.\<close>

fun fallback_total :: "(flags \<times> re) list \<Rightarrow> string \<Rightarrow> jsnum option" where
  "fallback_total [] pageText = None"
| "fallback_total ((f, r) # ps) pageText =
     (let matches = match_all f r pageText in
      if matches \<noteq> [] then
        (case re_exec no_flags amount_group (last matches) of
           None \<Rightarrow> fallback_total ps pageText
         | Some amountMatch \<Rightarrow>
             (case parseAmount (match_group amountMatch 1) of
                None \<Rightarrow> fallback_total ps pageText
              | Some amount \<Rightarrow>
                  if amount \<noteq> Num 0 then Some amount else fallback_total ps pageText))
      else fallback_total ps pageText)"

definition extractInvoiceTotal :: "string \<Rightarrow> jsnum option" where
  "extractInvoiceTotal pageText =
     (let lines = split_on newline pageText;
          potentialTotals = scan_lines lines [];
          extractedTotal =
            (if potentialTotals \<noteq> [] then
               (case sort_by (\<lambda>a b. if pt_priority a \<noteq> pt_priority b
                                      then pt_priority a - pt_priority b else 0) potentialTotals of
                  [] \<Rightarrow> None
                | best # _ \<Rightarrow> Some (pt_amount best))
             else None)
      in case extractedTotal of
           Some t \<Rightarrow> Some t
         | None \<Rightarrow> fallback_total totalPatterns pageText)"

section \<open>Objects\<close>

text \<open>
  A value of a property, and an object as a finite map from property names to values. The
  spread \<open>{...a, ...b}\<close> is the map \<open>a ++ b\<close>: a property of \<open>b\<close> replaces the property of the
  same name of \<open>a\<close>.
\<close>

datatype jsval = VStr string | VNum jsnum | VBool bool | VNull

type_synonym obj = "string \<rightharpoonup> jsval"

text \<open>A string or \<open>null\<close>, and a number or \<open>null\<close>, as values.\<close>

definition str_val :: "string option \<Rightarrow> jsval" where
  "str_val v = (case v of None \<Rightarrow> VNull | Some s \<Rightarrow> VStr s)"

definition num_val :: "jsnum option \<Rightarrow> jsval" where
  "num_val v = (case v of None \<Rightarrow> VNull | Some n \<Rightarrow> VNum n)"

text \<open>\<open>s || d\<close> for a string or \<open>undefined\<close>: the empty string is falsy.\<close>

definition or_str :: "string option \<Rightarrow> string \<Rightarrow> string" where
  "or_str v d = (case v of None \<Rightarrow> d | Some s \<Rightarrow> if s = [] then d else s)"

text \<open>The text of a group that takes part in every match of its expression.\<close>

definition grp :: "rmatch \<Rightarrow> nat \<Rightarrow> string" where
  "grp mr n = (case match_group mr n of None \<Rightarrow> [] | Some s \<Rightarrow> s)"

section \<open>extractLineItems\<close>

text \<open>\<open>a+?\<close>\<close>

definition many1_lazy :: "re \<Rightarrow> re" where
  "many1_lazy r = Seq r (LazyStar r)"

text \<open>\<open>/\b(Subtotal|Total)\b/i\<close>\<close>

definition boundary_re :: re where
  "boundary_re = seqs [WordB, Grp 1 (alts [str ''Subtotal'', str ''Total'']), WordB]"

text \<open>Step 1: the lines before the first Subtotal/Total line that is not a
  "Position Total" header.\<close>

definition lineItemSection :: "string \<Rightarrow> string list" where
  "lineItemSection pageText =
     takeWhile (\<lambda>line. \<not> (re_test flag_i boundary_re line \<and> \<not> re_test flag_i position_total_re line))
       (split_on newline pageText)"

text \<open>Step 2: the lines of that section which, trimmed, are longer than 20 characters and
  hold a VAT anchor.\<close>

definition candidateLines :: "string \<Rightarrow> string list" where
  "candidateLines pageText =
     filter (\<lambda>line. let trimmed = trim line in length trimmed > 20 \<and> re_test no_flags vat_anchor trimmed)
       (lineItemSection pageText)"

text \<open>
  \<open>/(\d{4})\s+(\d{6})\s+(.+?)\s+(\d+[.,]?\d*)\s+([A-Z]+)\s+(\d+[.,]?\d*%\([A-Z0-9]+\))\s+([\d.,]+)\s+([\d.,]+-?)/g\<close>,
  run with \<open>exec\<close> from \<open>lastIndex\<close> 0 on every line.
\<close>

definition structuredPattern :: re where
  "structuredPattern =
     seqs [Grp 1 (exactly 4 digit), many1 space,
           Grp 2 (exactly 6 digit), many1 space,
           Grp 3 (many1_lazy any_char), many1 space,
           Grp 4 (seqs [many1 digit, opt dot_comma, Star digit]), many1 space,
           Grp 5 (many1 upper_AZ), many1 space,
           Grp 6 vat_anchor, many1 space,
           Grp 7 (many1 d_dot_comma), many1 space,
           Grp 8 (seqs [many1 d_dot_comma, opt (lit (CHR ''-''))])]"

text \<open>Strategy 1 on one line: the item, when the expression matches and the total is not
  \<open>null\<close>.\<close>

definition strategy1_line :: "string \<Rightarrow> obj option" where
  "strategy1_line line =
     (case re_exec no_flags structuredPattern line of
        None \<Rightarrow> None
      | Some mr \<Rightarrow>
          (let position = grp mr 1; material = grp mr 2; description = grp mr 3;
               quantity = grp mr 4; unit = grp mr 5; vat = grp mr 6;
               unitPrice = grp mr 7; total = grp mr 8;
               positionTotal = parseAmount (Some total);
               item = [''position'' \<mapsto> VStr position,
                       ''material'' \<mapsto> VStr material,
                       ''positionDescription'' \<mapsto> VStr (trim description),
                       ''positionQuantity'' \<mapsto> VNum (parseFloat (replace_first quantity '','' ''.'')),
                       ''unit'' \<mapsto> VStr unit,
                       ''vat'' \<mapsto> VStr vat,
                       ''unitPrice'' \<mapsto> num_val (parseAmount (Some unitPrice)),
                       ''positionTotal'' \<mapsto> num_val positionTotal,
                       ''typeCost'' \<mapsto> VStr (classifyCostType description)]
           in if positionTotal \<noteq> None then Some item else None))"

text \<open>The loop of a strategy over the candidate lines, pushing onto \<open>lineItems\<close>.\<close>

fun run_strategy :: "(string \<Rightarrow> obj option) \<Rightarrow> string list \<Rightarrow> obj list \<Rightarrow> obj list" where
  "run_strategy strategy [] lineItems = lineItems"
| "run_strategy strategy (line # rest) lineItems =
     (case strategy line of
        None \<Rightarrow> run_strategy strategy rest lineItems
      | Some item \<Rightarrow> run_strategy strategy rest (lineItems @ [item]))"

text \<open>\<open>/^\d{4}$/\<close>, \<open>/^[\d.,]+-?$/\<close> and \<open>/^\d+[.,]?\d*$/\<close>\<close>

definition position_token_re :: re where
  "position_token_re = seqs [Bol, exactly 4 digit, Eol]"

definition amount_shape_re :: re where
  "amount_shape_re = seqs [Bol, many1 d_dot_comma, opt (lit (CHR ''-'')), Eol]"

definition bare_number_re :: re where
  "bare_number_re = seqs [Bol, many1 digit, opt dot_comma, Star digit, Eol]"

text \<open>
  The loop of strategy 2 over the tokens \<open>parts[posIndex + 2]\<close> up to, not including,
  \<open>parts[vatIndex - 2]\<close>: the first token that is a bare number and does not occur in the
  description so far is the quantity, and ends the loop; every token before it is added to
  the description. The quantity is 1 when the loop ends without one.
\<close>

fun describe :: "string list \<Rightarrow> string \<Rightarrow> string \<times> jsnum" where
  "describe [] description = (description, Num 1)"
| "describe (p # ps) description =
     (if re_test no_flags bare_number_re p \<and> \<not> str_includes description p
      then (description, parseFloat (replace_first p '','' ''.''))
      else describe ps (description @ p @ '' ''))"

text \<open>The elements \<open>xs[lo]\<close> up to, not including, \<open>xs[hi]\<close>, for \<open>lo\<close> not below 0.\<close>

definition slice :: "string list \<Rightarrow> int \<Rightarrow> int \<Rightarrow> string list" where
  "slice xs lo hi = take (nat (hi - lo)) (drop (nat lo) xs)"

definition strategy2_line :: "string \<Rightarrow> obj option" where
  "strategy2_line line =
     (let parts = split_re no_flags (many1 space) (trim line);
          posIndex = findIndex (\<lambda>p i. re_test no_flags position_token_re p) parts
      in if posIndex \<ge> 0 then
           (let vatIndex = findIndex (\<lambda>p i. re_test no_flags vat_anchor p) parts;
                amountIndex = findIndex (\<lambda>p i. i > vatIndex \<and> re_test no_flags amount_shape_re p) parts
            in if vatIndex > posIndex \<and> amountIndex > vatIndex then
                 (let material = or_str (elem_at parts (posIndex + 1)) [];
                      dq = describe (slice parts (posIndex + 2) (vatIndex - 2)) [];
                      description = fst dq;
                      quantity = snd dq;
                      positionTotal = parseAmount (elem_at parts amountIndex);
                      item = [''position'' \<mapsto> str_val (elem_at parts posIndex),
                              ''material'' \<mapsto> VStr material,
                              ''positionDescription'' \<mapsto> VStr (or_str (Some (trim description)) ''Unknown Service''),
                              ''positionQuantity'' \<mapsto> VNum quantity,
                              ''unit'' \<mapsto> VStr (or_str (elem_at parts (vatIndex - 1)) ''PU''),
                              ''vat'' \<mapsto> str_val (elem_at parts vatIndex),
                              ''unitPrice'' \<mapsto> VNum (or_zero (parseAmount (elem_at parts (vatIndex + 1)))),
                              ''positionTotal'' \<mapsto> num_val positionTotal,
                              ''typeCost'' \<mapsto> VStr (classifyCostType description)]
                  in if positionTotal \<noteq> None then Some item else None)
               else None)
         else None)"

text \<open>
  \<open>/(\d{4})\s+.*?(\d+[.,]?\d*%\([A-Z0-9]+\)).*?([\d.,]+-?)$/\<close>, \<open>/\d{4}\s+(\d{6})/\<close>,
  \<open>/^\d{4}\s+(\d{6}\s+)?/\<close> and \<open>/\s+\d+[.,]?\d*.*$/\<close>
\<close>

definition simple_re :: re where
  "simple_re =
     seqs [Grp 1 (exactly 4 digit), many1 space, LazyStar any_char, Grp 2 vat_anchor,
           LazyStar any_char, Grp 3 (seqs [many1 d_dot_comma, opt (lit (CHR ''-''))]), Eol]"

definition material_re :: re where
  "material_re = seqs [exactly 4 digit, many1 space, Grp 1 (exactly 6 digit)]"

definition item_prefix_re :: re where
  "item_prefix_re = seqs [Bol, exactly 4 digit, many1 space, opt (Grp 1 (seqs [exactly 6 digit, many1 space]))]"

definition item_suffix_re :: re where
  "item_suffix_re = seqs [many1 space, many1 digit, opt dot_comma, Star digit, Star any_char, Eol]"

definition strategy3_line :: "string \<Rightarrow> obj option" where
  "strategy3_line line =
     (case re_exec no_flags simple_re line of
        None \<Rightarrow> None
      | Some simpleMatch \<Rightarrow>
          (let position = grp simpleMatch 1;
               vat = grp simpleMatch 2;
               total = parseAmount (match_group simpleMatch 3)
           in if total \<noteq> None then
                (let material = (case re_exec no_flags material_re line of
                                   None \<Rightarrow> [] | Some materialMatch \<Rightarrow> grp materialMatch 1);
                     description0 = re_replace no_flags item_prefix_re [] line;
                     description = trim (re_replace no_flags item_suffix_re [] description0)
                 in Some [''position'' \<mapsto> VStr position,
                          ''material'' \<mapsto> VStr material,
                          ''positionDescription'' \<mapsto> VStr (or_str (Some description) ''Service Item''),
                          ''positionQuantity'' \<mapsto> VNum (Num 1),
                          ''unit'' \<mapsto> VStr ''PU'',
                          ''vat'' \<mapsto> VStr vat,
                          ''unitPrice'' \<mapsto> num_val total,
                          ''positionTotal'' \<mapsto> num_val total,
                          ''typeCost'' \<mapsto> VStr (classifyCostType description)])
              else None))"

text \<open>The three strategies in turn, each of the later two run only while \<open>lineItems\<close> is
  still empty. The page number is used for the log only.\<close>

definition extractLineItems :: "string \<Rightarrow> int \<Rightarrow> obj list" where
  "extractLineItems pageText pageNumber =
     (let candidates = candidateLines pageText;
          lineItems1 = run_strategy strategy1_line candidates [];
          lineItems2 = (if length lineItems1 = 0
                        then run_strategy strategy2_line candidates lineItems1 else lineItems1);
          lineItems3 = (if length lineItems2 = 0
                        then run_strategy strategy3_line candidates lineItems2 else lineItems2)
      in lineItems3)"

section \<open>extractInvoiceData\<close>

record page_total =
  amount :: jsnum
  pageNumber :: int
  pageText :: string

record total_candidate = page_total +
  isMainTotal :: bool
  isSubtotalOnly :: bool
  priority :: int

text \<open>\<open>/.*Total.*$/im\<close> and \<open>/\bTotal\b(?!.*Subtotal)/i\<close>\<close>

definition total_text_line_re :: re where
  "total_text_line_re = seqs [Star any_char, str ''Total'', Star any_char, Eol]"

definition total_without_subtotal_re :: re where
  "total_without_subtotal_re =
     seqs [WordB, str ''Total'', WordB, NotAhead (seqs [Star any_char, str ''Subtotal''])]"

text \<open>The invoice-level fields, read from the text of the whole document.\<close>

definition baseInvoiceInfo :: "string \<Rightarrow> string \<Rightarrow> obj" where
  "baseInvoiceInfo fullText fileName =
     [''fileName'' \<mapsto> VStr fileName,
      ''projectId'' \<mapsto> str_val (extractField fullText ''projectId''),
      ''invoiceNumber'' \<mapsto> str_val (extractField fullText ''invoiceNumber''),
      ''customerId'' \<mapsto> str_val (extractField fullText ''customerId''),
      ''dateOfInvoice'' \<mapsto> str_val (extractField fullText ''dateOfInvoice''),
      ''monthOfInvoice'' \<mapsto> str_val (extractMonthFromDate (extractField fullText ''dateOfInvoice'')),
      ''currency'' \<mapsto> str_val (extractField fullText ''currency''),
      ''vat'' \<mapsto> str_val (extractField fullText ''vat''),
      ''creditNote'' \<mapsto> VBool (detectCreditNote fullText)]"

text \<open>The record pushed for a line item of a page:
  \<open>{...baseInvoiceInfo, serviceProvisionPeriod, ...item, pageNumber, extractedInvoiceTotal: null}\<close>.\<close>

definition page_record :: "obj \<Rightarrow> string \<Rightarrow> int \<Rightarrow> obj \<Rightarrow> obj" where
  "page_record base pageServicePeriod pageIndex item =
     ((base(''serviceProvisionPeriod'' \<mapsto> VStr pageServicePeriod)) ++ item)
       (''pageNumber'' \<mapsto> VNum (Num (of_int (pageIndex + 1))),
        ''extractedInvoiceTotal'' \<mapsto> VNull)"

text \<open>The loop over the pages, with the page index: it collects the total of every page
  that has one and the records of the line items of every page.\<close>

fun process_pages ::
  "obj \<Rightarrow> string list \<Rightarrow> int \<Rightarrow> obj list \<Rightarrow> page_total list \<Rightarrow> obj list \<times> page_total list" where
  "process_pages base [] pageIndex lineItems allPageTotals = (lineItems, allPageTotals)"
| "process_pages base (text # rest) pageIndex lineItems allPageTotals =
     (let pageServicePeriod = extractServicePeriodFromPage text;
          pageTotal = extractInvoiceTotal text;
          allPageTotals1 =
            (case pageTotal of
               None \<Rightarrow> allPageTotals
             | Some t \<Rightarrow> allPageTotals @ [\<lparr>amount = t, pageNumber = pageIndex + 1, pageText = text\<rparr>]);
          pageLineItems = extractLineItems text (pageIndex + 1);
          lineItems1 = lineItems @ map (page_record base pageServicePeriod pageIndex) pageLineItems
      in process_pages base rest (pageIndex + 1) lineItems1 allPageTotals1)"

text \<open>The priority of the total of a page, from the text of the page: 1 when the page has
  the word Total and its first line with "total" has no "Subtotal", 3 when it has
  "Subtotal" and no word Total without a "Subtotal" later on its line, 2 otherwise.\<close>

definition classify_candidate :: "page_total \<Rightarrow> total_candidate" where
  "classify_candidate candidate =
     (let hasMainTotal =
            (re_test flag_i main_total_re (pageText candidate) \<and>
             \<not> re_test flag_i subtotal_re
                 (case re_exec flag_im total_text_line_re (pageText candidate) of
                    None \<Rightarrow> [] | Some mr \<Rightarrow> m_text mr));
          hasSubtotalOnly =
            (re_test flag_i subtotal_re (pageText candidate) \<and>
             \<not> re_test flag_i total_without_subtotal_re (pageText candidate))
      in \<lparr>amount = amount candidate, pageNumber = pageNumber candidate,
          pageText = pageText candidate,
          isMainTotal = hasMainTotal, isSubtotalOnly = hasSubtotalOnly,
          priority = (if hasMainTotal then 1 else (if hasSubtotalOnly then 3 else 2))\<rparr>)"

text \<open>The comparator of the sort: the lower priority first, then the later page first.\<close>

definition compare_candidates :: "total_candidate \<Rightarrow> total_candidate \<Rightarrow> int" where
  "compare_candidates a b =
     (if priority a \<noteq> priority b then priority a - priority b
      else pageNumber b - pageNumber a)"

text \<open>The choice of the best total from all pages; \<open>null\<close> when no page has a total.\<close>

definition choose_total :: "page_total list \<Rightarrow> jsnum option" where
  "choose_total allPageTotals =
     (if length allPageTotals > 0 then
        (case sort_by compare_candidates (map classify_candidate allPageTotals) of
           [] \<Rightarrow> None
         | best # _ \<Rightarrow> Some (amount best))
      else None)"

definition extractInvoiceData :: "string \<Rightarrow> string list \<Rightarrow> string \<Rightarrow> obj list" where
  "extractInvoiceData fullText pageTexts fileName =
     (let base = baseInvoiceInfo fullText fileName;
          collected = process_pages base pageTexts 0 [] [];
          lineItems = fst collected;
          allPageTotals = snd collected;
          extractedInvoiceTotal = choose_total allPageTotals;
          lineItems1 = map (\<lambda>item. item(''extractedInvoiceTotal'' \<mapsto> num_val extractedInvoiceTotal))
                         lineItems
      in if length lineItems1 > 0 then lineItems1
         else [base(''extractedInvoiceTotal'' \<mapsto> num_val extractedInvoiceTotal)])"

section \<open>What the page loop collects\<close>

text \<open>
  The two lists that the loop over the pages builds, written without the accumulators:
  the line items of all pages in order, each with the index and the service period of its
  page, and the totals of the pages that have one.
\<close>

fun page_items :: "string list \<Rightarrow> int \<Rightarrow> (int \<times> string \<times> obj) list" where
  "page_items [] pageIndex = []"
| "page_items (text # rest) pageIndex =
     map (\<lambda>item. (pageIndex, extractServicePeriodFromPage text, item))
         (extractLineItems text (pageIndex + 1))
     @ page_items rest (pageIndex + 1)"

fun page_totals :: "string list \<Rightarrow> int \<Rightarrow> page_total list" where
  "page_totals [] pageIndex = []"
| "page_totals (text # rest) pageIndex =
     (case extractInvoiceTotal text of
        None \<Rightarrow> []
      | Some t \<Rightarrow> [\<lparr>amount = t, pageNumber = pageIndex + 1, pageText = text\<rparr>])
     @ page_totals rest (pageIndex + 1)"

text \<open>The total resolved across the pages of a document.\<close>

definition resolved_total :: "string list \<Rightarrow> jsnum option" where
  "resolved_total pageTexts = choose_total (page_totals pageTexts 0)"

section \<open>What the matcher computes\<close>

text \<open>
  The states an expression can end in from a state, as a relation, without the order in
  which the matcher tries them; then the same for a stack of frames. An iteration of a
  star has to consume something.
\<close>

definition set_group :: "nat \<Rightarrow> string \<Rightarrow> mstate \<Rightarrow> mstate" where
  "set_group n start st =
     MState (before st) (after st)
       ((n, take (length start - length (after st)) start) # groups st)"

definition progress :: "(mstate \<times> mstate) set \<Rightarrow> (mstate \<times> mstate) set" where
  "progress R = {(s, s'). (s, s') \<in> R \<and> length (after s') < length (after s)}"

fun sem :: "flags \<Rightarrow> re \<Rightarrow> (mstate \<times> mstate) set" where
  "sem f (Chr cs) =
     {(st, st'). \<exists>c r. after st = c # r \<and> cset_match (icase f) cs c \<and>
                       st' = MState (c # before st) r (groups st)}"
| "sem f Eps = Id"
| "sem f (Seq a b) = sem f a O sem f b"
| "sem f (Alt a b) = sem f a \<union> sem f b"
| "sem f (Star a) = (progress (sem f a))\<^sup>*"
| "sem f (LazyStar a) = (progress (sem f a))\<^sup>*"
| "sem f (Grp n a) = {(st, st''). \<exists>st'. (st, st') \<in> sem f a \<and> st'' = set_group n (after st) st'}"
| "sem f WordB = {(st, st'). st' = st \<and> at_word_boundary st}"
| "sem f Bol = {(st, st'). st' = st \<and> at_line_start f st}"
| "sem f Eol = {(st, st'). st' = st \<and> at_line_end f st}"
| "sem f (NotAhead a) = {(st, st'). st' = st \<and> \<not> (\<exists>x. (st, x) \<in> sem f a)}"

fun sems :: "flags \<Rightarrow> frame list \<Rightarrow> (mstate \<times> mstate) set" where
  "sems f [] = Id"
| "sems f (FRe r # stk) = sem f r O sems f stk"
| "sems f (FGrp n start # stk) = {(st, st'). (set_group n start st, st') \<in> sems f stk}"
| "sems f (FLoop r n # stk) =
     {(st, st'). length (after st) < n \<and> (st, st') \<in> sem f r O sems f stk}"

text \<open>
  The texts an expression consumes, for an expression without assertions (\<open>\b\<close>, \<open>^\<close>, \<open>$\<close>,
  look-ahead); a capture group consumes what its body consumes.
\<close>

fun pure :: "re \<Rightarrow> bool" where
  "pure (Chr cs) = True"
| "pure Eps = True"
| "pure (Seq a b) = (pure a \<and> pure b)"
| "pure (Alt a b) = (pure a \<and> pure b)"
| "pure (Star a) = pure a"
| "pure (LazyStar a) = pure a"
| "pure (Grp n a) = pure a"
| "pure _ = False"

fun lang :: "bool \<Rightarrow> re \<Rightarrow> string set" where
  "lang ic (Chr cs) = {[c] | c. cset_match ic cs c}"
| "lang ic Eps = {[]}"
| "lang ic (Seq a b) = {u @ v | u v. u \<in> lang ic a \<and> v \<in> lang ic b}"
| "lang ic (Alt a b) = lang ic a \<union> lang ic b"
| "lang ic (Star a) = {concat ws | ws. \<forall>w \<in> set ws. w \<in> lang ic a \<and> w \<noteq> []}"
| "lang ic (LazyStar a) = {concat ws | ws. \<forall>w \<in> set ws. w \<in> lang ic a \<and> w \<noteq> []}"
| "lang ic (Grp n a) = lang ic a"
| "lang ic _ = {}"

section \<open>Words of a text\<close>







section \<open>Labelled dates\<close>

text \<open>
  \<open>colon_gap_text g\<close>: \<open>g\<close> is white space with at most one colon in it.
  \<open>date_token_text v\<close>: \<open>v\<close> is one or two digits, a dot or a slash, one or two digits, a
  dot or a slash, and four digits. \<open>labelled_date w v\<close>: \<open>w\<close> is the word "date" in some
  letter case, such a gap and the date token \<open>v\<close>.
\<close>

definition colon_gap_text :: "string \<Rightarrow> bool" where
  "colon_gap_text g =
     (\<exists>a c b. g = a @ c @ b \<and> (\<forall>x \<in> set a. is_space x) \<and> (c = [] \<or> c = '':'') \<and>
              (\<forall>x \<in> set b. is_space x))"

definition date_token_text :: "string \<Rightarrow> bool" where
  "date_token_text v =
     (\<exists>d1 s1 d2 s2 y. v = d1 @ [s1] @ d2 @ [s2] @ y \<and>
        1 \<le> length d1 \<and> length d1 \<le> 2 \<and> (\<forall>x \<in> set d1. is_digit x) \<and>
        (s1 = CHR ''.'' \<or> s1 = CHR ''/'') \<and>
        1 \<le> length d2 \<and> length d2 \<le> 2 \<and> (\<forall>x \<in> set d2. is_digit x) \<and>
        (s2 = CHR ''.'' \<or> s2 = CHR ''/'') \<and>
        length y = 4 \<and> (\<forall>x \<in> set y. is_digit x))"

definition labelled_date :: "string \<Rightarrow> string \<Rightarrow> bool" where
  "labelled_date w v =
     (\<exists>d g. w = d @ g @ v \<and> toLowerCase d = ''date'' \<and> colon_gap_text g \<and> date_token_text v)"

section \<open>Facts about the string helpers\<close>

lemma sublist_single: "sublist [c] s \<longleftrightarrow> c \<in> set s"
  by (induction s) (auto simp: sublist_Cons_right)

lemma replace_first_absent: "\<not> sublist t s \<Longrightarrow> t \<noteq> [] \<Longrightarrow> replace_first s t r = s"
  by (induction s) (auto simp: sublist_Cons_right)

lemma replace_first_char_absent: "c \<notin> set s \<Longrightarrow> replace_first s [c] r = s"
  by (simp add: replace_first_absent sublist_single)

lemma replace_first_char_here:
  "c \<notin> set x \<Longrightarrow> replace_first (x @ c # y) [c] r = x @ r @ y"
  by (induction x) auto

lemma remove_all_absent: "c \<notin> set s \<Longrightarrow> remove_all c s = s"
  by (induction s) (auto simp: remove_all_def)

lemma remove_all_append: "remove_all c (x @ y) = remove_all c x @ remove_all c y"
  by (simp add: remove_all_def)

lemma remove_all_set: "set (remove_all c x) = set x - {c}"
  by (auto simp: remove_all_def)

lemma last_index_from_absent: "c \<notin> set s \<Longrightarrow> last_index_from s c i found = found"
  by (induction s arbitrary: i found) auto

lemma last_index_from_append:
  "last_index_from (x @ y) c i found =
   last_index_from y c (i + length x) (last_index_from x c i found)"
  by (induction x arbitrary: i found) auto

lemma last_index_from_bound:
  "found < int (i + length s) \<Longrightarrow> last_index_from s c i found < int (i + length s)"
proof (induction s arbitrary: i found)
  case Nil
  then show ?case by simp
next
  case (Cons a s)
  have "(if a = c then int i else found) < int (Suc i + length s)"
    using Cons.prems by auto
  from Cons.IH [OF this] show ?case by simp
qed

lemma lastIndexOf_here:
  "c \<notin> set y \<Longrightarrow> lastIndexOf (x @ c # y) c = int (length x)"
  by (simp add: lastIndexOf_def last_index_from_append last_index_from_absent)

lemma lastIndexOf_before:
  assumes "d \<notin> set y" "d \<noteq> c"
  shows "lastIndexOf (x @ c # y) d < int (length x)"
proof -
  have "last_index_from x d 0 (- 1) < int (0 + length x)"
    by (rule last_index_from_bound) simp
  with assms show ?thesis
    by (simp add: lastIndexOf_def last_index_from_append last_index_from_absent)
qed

lemma endsWith_char: "endsWith s [c] \<Longrightarrow> c \<in> set s"
  by (auto simp: endsWith_def suffix_def)

section \<open>parseAmount: the sign marker and the two separators\<close>

lemma parseAmount_unsigned:
  assumes "s \<noteq> []" "CHR ''-'' \<notin> set s"
  shows "parseAmount (Some s) =
    Some (parseFloat
      (if str_includes s '','' \<and> lastIndexOf s (CHR '','') > lastIndexOf s (CHR ''.'')
       then replace_first (remove_all (CHR ''.'') s) '','' ''.''
       else remove_all (CHR '','') s))"
proof -
  have "\<not> endsWith s ''-''" using assms(2) endsWith_char by blast
  moreover have "replace_first s ''-'' [] = s"
    using assms(2) by (rule replace_first_char_absent)
  ultimately show ?thesis using assms(1) by (simp add: parseAmount_def)
qed

lemma parseAmount_trailing_minus:
  assumes "b \<noteq> []" "CHR ''-'' \<notin> set b"
  shows "parseAmount (Some (b @ ''-'')) = map_option neg (parseAmount (Some b))"
proof -
  have e: "endsWith (b @ ''-'') ''-''" by (simp add: endsWith_def)
  have r: "replace_first (b @ ''-'') ''-'' [] = b"
    using replace_first_char_here [OF assms(2), of "[]" "[]"] by simp
  have "parseAmount (Some (b @ ''-'')) =
    Some (neg (parseFloat
      (if str_includes b '','' \<and> lastIndexOf b (CHR '','') > lastIndexOf b (CHR ''.'')
       then replace_first (remove_all (CHR ''.'') b) '','' ''.''
       else remove_all (CHR '','') b)))"
    unfolding parseAmount_def using e r by simp
  then show ?thesis using parseAmount_unsigned [OF assms] by simp
qed

lemma parseAmount_comma_decimal:
  assumes "CHR '','' \<notin> set x" "CHR ''-'' \<notin> set x"
    and "CHR ''.'' \<notin> set c" "CHR '','' \<notin> set c" "CHR ''-'' \<notin> set c"
  shows "parseAmount (Some (x @ '','' @ c)) =
         Some (parseFloat (remove_all (CHR ''.'') x @ ''.'' @ c))"
proof -
  let ?s = "x @ '','' @ c"
  have inc: "str_includes ?s '',''" by (simp add: str_includes_def sublist_single)
  have l1: "lastIndexOf ?s (CHR '','') = int (length x)"
    using lastIndexOf_here [OF assms(4), of x] by simp
  have l2: "lastIndexOf ?s (CHR ''.'') < int (length x)"
    using lastIndexOf_before [OF assms(3), of "CHR '',''" x] by simp
  have rm: "remove_all (CHR ''.'') ?s = remove_all (CHR ''.'') x @ '','' @ c"
    using assms(3) by (simp add: remove_all_append remove_all_absent)
  have "CHR '','' \<notin> set (remove_all (CHR ''.'') x)" using assms(1) by (simp add: remove_all_set)
  from replace_first_char_here [OF this, of c "''.''"]
  have rp: "replace_first (remove_all (CHR ''.'') x @ '','' @ c) '','' ''.'' =
            remove_all (CHR ''.'') x @ ''.'' @ c" by simp
  have "?s \<noteq> []" "CHR ''-'' \<notin> set ?s" using assms by auto
  from parseAmount_unsigned [OF this] inc l1 l2 rm rp show ?thesis by simp
qed

lemma parseAmount_dot_decimal:
  assumes "CHR ''-'' \<notin> set x"
    and "CHR ''.'' \<notin> set c" "CHR '','' \<notin> set c" "CHR ''-'' \<notin> set c"
  shows "parseAmount (Some (x @ ''.'' @ c)) =
         Some (parseFloat (remove_all (CHR '','') x @ ''.'' @ c))"
proof -
  let ?s = "x @ ''.'' @ c"
  have l1: "lastIndexOf ?s (CHR ''.'') = int (length x)"
    using lastIndexOf_here [OF assms(2), of x] by simp
  have l2: "lastIndexOf ?s (CHR '','') < int (length x)"
    using lastIndexOf_before [OF assms(3), of "CHR ''.''" x] by simp
  have rm: "remove_all (CHR '','') ?s = remove_all (CHR '','') x @ ''.'' @ c"
    using assms(3) by (simp add: remove_all_append remove_all_absent)
  have "?s \<noteq> []" "CHR ''-'' \<notin> set ?s" using assms by auto
  from parseAmount_unsigned [OF this] l1 l2 rm show ?thesis by simp
qed

text \<open>
  C3. The amount parser gives 1234.56 for "1.234,56", -1234.56 for "1234,56-" and for
  "1.234,56-", and 50 for "50". A trailing \<open>-\<close> negates the value of the token before it.
  When both separators occur, the one occurring later is the decimal point and every
  occurrence of the other is removed: with the last comma after every dot the value is that
  of the text with its dots removed and the comma read as the point, and with the last dot
  after every comma it is that of the text with its commas removed.
\<close>

theorem parseAmount_examples_and_rules:
  "parseAmount (Some ''1.234,56'') = Some (Num (123456 / 100)) \<and>
   parseAmount (Some ''1234,56-'') = Some (Num (- (123456 / 100))) \<and>
   parseAmount (Some ''1.234,56-'') = Some (Num (- (123456 / 100))) \<and>
   parseAmount (Some ''50'') = Some (Num 50) \<and>
   (\<forall>b. b \<noteq> [] \<and> CHR ''-'' \<notin> set b \<longrightarrow>
      parseAmount (Some (b @ ''-'')) = map_option neg (parseAmount (Some b))) \<and>
   (\<forall>x c. CHR ''.'' \<in> set x \<and> CHR '','' \<notin> set x \<and> CHR ''-'' \<notin> set x \<and>
      CHR ''.'' \<notin> set c \<and> CHR '','' \<notin> set c \<and> CHR ''-'' \<notin> set c \<longrightarrow>
      parseAmount (Some (x @ '','' @ c)) =
        Some (parseFloat (remove_all (CHR ''.'') x @ ''.'' @ c))) \<and>
   (\<forall>x c. CHR '','' \<in> set x \<and> CHR ''-'' \<notin> set x \<and>
      CHR ''.'' \<notin> set c \<and> CHR '','' \<notin> set c \<and> CHR ''-'' \<notin> set c \<longrightarrow>
      parseAmount (Some (x @ ''.'' @ c)) =
        Some (parseFloat (remove_all (CHR '','') x @ ''.'' @ c)))"
proof -
  have e1: "parseAmount (Some ''1.234,56'') = Some (Num (123456 / 100))" by code_simp
  have e2: "parseAmount (Some ''1234,56-'') = Some (Num (- (123456 / 100)))" by code_simp
  have e3: "parseAmount (Some ''1.234,56-'') = Some (Num (- (123456 / 100)))" by code_simp
  have e4: "parseAmount (Some ''50'') = Some (Num 50)" by code_simp
  have g1: "\<forall>b. b \<noteq> [] \<and> CHR ''-'' \<notin> set b \<longrightarrow>
      parseAmount (Some (b @ ''-'')) = map_option neg (parseAmount (Some b))"
    by (intro allI impI, elim conjE) (rule parseAmount_trailing_minus)
  have g2: "\<forall>x c. CHR ''.'' \<in> set x \<and> CHR '','' \<notin> set x \<and> CHR ''-'' \<notin> set x \<and>
      CHR ''.'' \<notin> set c \<and> CHR '','' \<notin> set c \<and> CHR ''-'' \<notin> set c \<longrightarrow>
      parseAmount (Some (x @ '','' @ c)) =
        Some (parseFloat (remove_all (CHR ''.'') x @ ''.'' @ c))"
    by (intro allI impI, elim conjE) (rule parseAmount_comma_decimal)
  have g3: "\<forall>x c. CHR '','' \<in> set x \<and> CHR ''-'' \<notin> set x \<and>
      CHR ''.'' \<notin> set c \<and> CHR '','' \<notin> set c \<and> CHR ''-'' \<notin> set c \<longrightarrow>
      parseAmount (Some (x @ ''.'' @ c)) =
        Some (parseFloat (remove_all (CHR '','') x @ ''.'' @ c))"
    by (intro allI impI, elim conjE) (rule parseAmount_dot_decimal)
  from e1 e2 e3 e4 g1 g2 g3 show ?thesis by (intro conjI)
qed

theorem parseAmount_examples_and_rules_witness:
  "parseAmount (Some (''12,5'' @ ''-'')) = map_option neg (parseAmount (Some ''12,5'')) \<and>
   parseAmount (Some (''1.234'' @ '','' @ ''56'')) = Some (parseFloat (''1234'' @ ''.'' @ ''56'')) \<and>
   parseAmount (Some (''1,234'' @ ''.'' @ ''56'')) = Some (parseFloat (''1234'' @ ''.'' @ ''56''))"
proof -
  have a: "''12,5'' \<noteq> [] \<and> CHR ''-'' \<notin> set ''12,5''" by simp
  have b: "CHR ''.'' \<in> set ''1.234'' \<and> CHR '','' \<notin> set ''1.234'' \<and> CHR ''-'' \<notin> set ''1.234'' \<and>
      CHR ''.'' \<notin> set ''56'' \<and> CHR '','' \<notin> set ''56'' \<and> CHR ''-'' \<notin> set ''56''" by simp
  have c: "CHR '','' \<in> set ''1,234'' \<and> CHR ''-'' \<notin> set ''1,234'' \<and>
      CHR ''.'' \<notin> set ''56'' \<and> CHR '','' \<notin> set ''56'' \<and> CHR ''-'' \<notin> set ''56''" by simp
  have r1: "remove_all (CHR ''.'') ''1.234'' = ''1234''" by code_simp
  have r2: "remove_all (CHR '','') ''1,234'' = ''1234''" by code_simp
  note t = parseAmount_examples_and_rules
  note t5 = t [THEN conjunct2, THEN conjunct2, THEN conjunct2, THEN conjunct2]
  have w1: "parseAmount (Some (''12,5'' @ ''-'')) = map_option neg (parseAmount (Some ''12,5''))"
    using t5 [THEN conjunct1, THEN spec, THEN mp, OF a] .
  have w2: "parseAmount (Some (''1.234'' @ '','' @ ''56'')) =
      Some (parseFloat (remove_all (CHR ''.'') ''1.234'' @ ''.'' @ ''56''))"
    using t5 [THEN conjunct2, THEN conjunct1, THEN spec, THEN spec, THEN mp, OF b] .
  have w3: "parseAmount (Some (''1,234'' @ ''.'' @ ''56'')) =
      Some (parseFloat (remove_all (CHR '','') ''1,234'' @ ''.'' @ ''56''))"
    using t5 [THEN conjunct2, THEN conjunct2, THEN spec, THEN spec, THEN mp, OF c] .
  from w1 w2 [unfolded r1] w3 [unfolded r2] show ?thesis by (intro conjI)
qed

text \<open>
  C9. A non-empty token without digits does not give the failure value \<open>null\<close>: the parser
  returns what \<open>parseFloat\<close> returns, which is NaN.
\<close>

theorem parseAmount_non_digit_is_NaN:
  "parseAmount (Some ''abc'') = Some NaN"
  by code_simp

section \<open>Credit note detection under text extension\<close>

lemma str_includes_extend:
  assumes "str_includes (toLowerCase t) k"
  shows "str_includes (toLowerCase (p @ t @ s)) k"
proof -
  from assms have a: "sublist k (toLowerCase t)" by (simp add: str_includes_def)
  have "sublist (toLowerCase t) (toLowerCase p @ toLowerCase t @ toLowerCase s)"
    by (rule sublist_appendI)
  with a have "sublist k (toLowerCase p @ toLowerCase t @ toLowerCase s)"
    by (rule sublist_order.order.trans)
  then show ?thesis by (simp add: str_includes_def toLowerCase_def)
qed

text \<open>
  C10. Credit note detection is monotone under text extension: when a text is detected as
  a credit note, so is every text that has it as a contiguous part.
\<close>

theorem detectCreditNote_monotone:
  "detectCreditNote t \<Longrightarrow> detectCreditNote (p @ t @ s)"
  unfolding detectCreditNote_def Let_def list_ex_iff
  by (blast intro: str_includes_extend)

theorem detectCreditNote_monotone_witness:
  "detectCreditNote ''Refund of order 7'' \<and>
   detectCreditNote (''Page 1: '' @ ''Refund of order 7'' @ '' (copy)'')"
proof -
  have h: "detectCreditNote ''Refund of order 7''" by code_simp
  from detectCreditNote_monotone [OF h, of "''Page 1: ''" "'' (copy)''"] h
  show ?thesis by simp
qed

section \<open>The assembled records\<close>

lemma process_pages_collects:
  "process_pages base pageTexts i lineItems allPageTotals =
     (lineItems @ map (\<lambda>(j, period, item). page_record base period j item) (page_items pageTexts i),
      allPageTotals @ page_totals pageTexts i)"
proof (induction pageTexts arbitrary: i lineItems allPageTotals)
  case Nil
  then show ?case by simp
next
  case (Cons t rest)
  show ?case
    by (simp add: Cons.IH Let_def comp_def split: option.split)
qed

lemma extractLineItems_page_number:
  "extractLineItems text n = extractLineItems text n'"
  by (simp add: extractLineItems_def)

lemma page_items_empty_iff:
  "page_items pageTexts i = [] \<longleftrightarrow> (\<forall>text \<in> set pageTexts. \<forall>n. extractLineItems text n = [])"
proof (induction pageTexts arbitrary: i)
  case Nil
  then show ?case by simp
next
  case (Cons t rest)
  have "(\<forall>n. extractLineItems t n = []) \<longleftrightarrow> extractLineItems t (i + 1) = []"
    using extractLineItems_page_number by metis
  then show ?case using Cons.IH [of "i + 1"] by auto
qed

lemma extractInvoiceData_unfold:
  "extractInvoiceData fullText pageTexts fileName =
     (if page_items pageTexts 0 = []
      then [(baseInvoiceInfo fullText fileName)
              (''extractedInvoiceTotal'' \<mapsto> num_val (resolved_total pageTexts))]
      else map (\<lambda>(j, period, item).
                  (page_record (baseInvoiceInfo fullText fileName) period j item)
                    (''extractedInvoiceTotal'' \<mapsto> num_val (resolved_total pageTexts)))
               (page_items pageTexts 0))"
  by (simp add: extractInvoiceData_def process_pages_collects resolved_total_def Let_def
      comp_def case_prod_unfold)

text \<open>
  C2. When no line item is extracted on any page, the result is exactly one record: the
  header with the resolved total. Otherwise the result is not empty and every record of
  it carries as \<open>extractedInvoiceTotal\<close> the one total resolved across the pages.
\<close>

theorem extractInvoiceData_total_invariant:
  "((\<forall>text \<in> set pageTexts. \<forall>n. extractLineItems text n = []) \<longrightarrow>
      extractInvoiceData fullText pageTexts fileName =
        [(baseInvoiceInfo fullText fileName)
           (''extractedInvoiceTotal'' \<mapsto> num_val (resolved_total pageTexts))]) \<and>
   (\<not> (\<forall>text \<in> set pageTexts. \<forall>n. extractLineItems text n = []) \<longrightarrow>
      extractInvoiceData fullText pageTexts fileName \<noteq> [] \<and>
      (\<forall>r \<in> set (extractInvoiceData fullText pageTexts fileName).
         r ''extractedInvoiceTotal'' = Some (num_val (resolved_total pageTexts))))"
proof (intro conjI impI)
  assume "\<forall>text \<in> set pageTexts. \<forall>n. extractLineItems text n = []"
  then have "page_items pageTexts 0 = []" by (simp add: page_items_empty_iff)
  then show "extractInvoiceData fullText pageTexts fileName =
        [(baseInvoiceInfo fullText fileName)
           (''extractedInvoiceTotal'' \<mapsto> num_val (resolved_total pageTexts))]"
    by (simp add: extractInvoiceData_unfold)
next
  assume "\<not> (\<forall>text \<in> set pageTexts. \<forall>n. extractLineItems text n = [])"
  then have ne: "page_items pageTexts 0 \<noteq> []" by (simp add: page_items_empty_iff)
  then show "extractInvoiceData fullText pageTexts fileName \<noteq> []"
    by (simp add: extractInvoiceData_unfold)
  show "\<forall>r \<in> set (extractInvoiceData fullText pageTexts fileName).
         r ''extractedInvoiceTotal'' = Some (num_val (resolved_total pageTexts))"
    using ne by (auto simp: extractInvoiceData_unfold)
qed
theorem extractInvoiceData_total_invariant_witness:
  "extractInvoiceData ''Total 250,00'' [''Total 250,00''] ''a.pdf'' =
     [(baseInvoiceInfo ''Total 250,00'' ''a.pdf'')
        (''extractedInvoiceTotal'' \<mapsto> num_val (resolved_total [''Total 250,00'']))] \<and>
   (extractInvoiceData
      ''0010 123456 Consulting 5 PU 21%(V1) 100,00 500,00''
      [''0010 123456 Consulting 5 PU 21%(V1) 100,00 500,00''] ''a.pdf'' ! 0)
     ''extractedInvoiceTotal'' =
   Some (num_val (resolved_total [''0010 123456 Consulting 5 PU 21%(V1) 100,00 500,00'']))"
proof -
  let ?A = "''Total 250,00''"
  let ?B = "''0010 123456 Consulting 5 PU 21%(V1) 100,00 500,00''"
  have "length (extractLineItems ?A 0) = 0" by code_simp
  then have "extractLineItems ?A n = []" for n
    using extractLineItems_page_number [of ?A n 0] by simp
  then have h1: "\<forall>text \<in> set [?A]. \<forall>n. extractLineItems text n = []" by simp
  have "length (extractLineItems ?B 0) = 1" by code_simp
  then have "extractLineItems ?B 0 \<noteq> []" by auto
  then have h2: "\<not> (\<forall>text \<in> set [?B]. \<forall>n. extractLineItems text n = [])" by auto
  note t1 = extractInvoiceData_total_invariant [of "[?A]" ?A "''a.pdf''", THEN conjunct1, THEN mp, OF h1]
  note t2 = extractInvoiceData_total_invariant [of "[?B]" ?B "''a.pdf''", THEN conjunct2, THEN mp, OF h2]
  have "extractInvoiceData ?B [?B] ''a.pdf'' ! 0 \<in> set (extractInvoiceData ?B [?B] ''a.pdf'')"
    using t2 [THEN conjunct1] by (simp add: nth_mem)
  with t2 [THEN conjunct2]
  have "(extractInvoiceData ?B [?B] ''a.pdf'' ! 0) ''extractedInvoiceTotal'' =
        Some (num_val (resolved_total [?B]))" by (rule bspec)
  with t1 show ?thesis by (intro conjI)
qed

section \<open>The cascade of the three strategies\<close>

lemma run_strategy_map_filter:
  "run_strategy strategy ls lineItems = lineItems @ List.map_filter strategy ls"
  by (induction ls arbitrary: lineItems) (auto simp: List.map_filter_simps split: option.split)

lemma candidateLines_empty:
  assumes "\<forall>line \<in> set (lineItemSection page).
             \<not> (length (trim line) > 20 \<and> re_test no_flags vat_anchor (trim line))"
  shows "candidateLines page = []"
  using assms by (auto simp: candidateLines_def Let_def filter_empty_conv)

text \<open>
  C7. The line item parser returns the items of strategy A (structured) when there are
  any for the page, otherwise those of strategy B (tokenized) when there are any, otherwise
  those of strategy C (loose); the items of a strategy are those of the candidate lines on
  which it succeeds, in order. On a page where no line before the first Total/Subtotal
  boundary is, trimmed, longer than 20 characters with a VAT anchor, the result is the empty
  list; the parser is a total function and has no failing branch.
\<close>

theorem extractLineItems_cascade:
  "extractLineItems page n =
     (let c = candidateLines page;
          a = List.map_filter strategy1_line c;
          b = List.map_filter strategy2_line c;
          d = List.map_filter strategy3_line c
      in if a \<noteq> [] then a else if b \<noteq> [] then b else d) \<and>
   ((\<forall>line \<in> set (lineItemSection page).
       \<not> (length (trim line) > 20 \<and> re_test no_flags vat_anchor (trim line))) \<longrightarrow>
    extractLineItems page n = [])"
proof (intro conjI impI)
  show "extractLineItems page n =
     (let c = candidateLines page;
          a = List.map_filter strategy1_line c;
          b = List.map_filter strategy2_line c;
          d = List.map_filter strategy3_line c
      in if a \<noteq> [] then a else if b \<noteq> [] then b else d)"
    by (simp add: extractLineItems_def run_strategy_map_filter Let_def)
next
  assume "\<forall>line \<in> set (lineItemSection page).
            \<not> (length (trim line) > 20 \<and> re_test no_flags vat_anchor (trim line))"
  then have "candidateLines page = []" by (rule candidateLines_empty)
  then show "extractLineItems page n = []"
    by (simp add: extractLineItems_def)
qed

theorem extractLineItems_cascade_witness:
  "lineItemSection ''Invoice 123'' = [''Invoice 123''] \<and>
   \<not> (length (trim ''Invoice 123'') > 20 \<and> re_test no_flags vat_anchor (trim ''Invoice 123'')) \<and>
   extractLineItems ''Invoice 123'' 1 = []"
proof -
  have s: "lineItemSection ''Invoice 123'' = [''Invoice 123'']" by code_simp
  have n: "\<not> (length (trim ''Invoice 123'') > 20 \<and> re_test no_flags vat_anchor (trim ''Invoice 123''))"
    by code_simp
  have h: "\<forall>line \<in> set (lineItemSection ''Invoice 123'').
             \<not> (length (trim line) > 20 \<and> re_test no_flags vat_anchor (trim line))"
    using s n by simp
  from extractLineItems_cascade [of "''Invoice 123''" 1, THEN conjunct2, THEN mp, OF h] s n
  show ?thesis by (intro conjI)
qed

section \<open>The merge of a line item with the header\<close>

lemma page_record_item_field:
  assumes "k \<in> dom item" "k \<noteq> ''pageNumber''" "k \<noteq> ''extractedInvoiceTotal''"
  shows "page_record base period j item k = item k"
proof -
  have "page_record base period j item k = ((base(''serviceProvisionPeriod'' \<mapsto> VStr period)) ++ item) k"
    unfolding page_record_def using assms(2,3) by (simp only: fun_upd_apply if_False)
  also have "\<dots> = item k" using assms(1) by (rule map_add_dom_app_simps(1))
  finally show ?thesis .
qed

lemma page_record_header_field:
  assumes "k \<notin> dom item" "k \<noteq> ''pageNumber''" "k \<noteq> ''extractedInvoiceTotal''"
    "k \<noteq> ''serviceProvisionPeriod''"
  shows "page_record base period j item k = base k"
proof -
  have "page_record base period j item k = ((base(''serviceProvisionPeriod'' \<mapsto> VStr period)) ++ item) k"
    unfolding page_record_def using assms(2,3) by (simp only: fun_upd_apply if_False)
  also have "\<dots> = (base(''serviceProvisionPeriod'' \<mapsto> VStr period)) k"
    using assms(1) by (rule map_add_dom_app_simps(3))
  also have "\<dots> = base k" using assms(4) by (simp only: fun_upd_apply if_False)
  finally show ?thesis .
qed
text \<open>
  The header carries \<open>vat\<close> on every document: the VAT ID found in the text, or \<open>null\<close>.
\<close>

lemma baseInvoiceInfo_has_vat: "''vat'' \<in> dom (baseInvoiceInfo fullText fileName)"
  by (simp add: baseInvoiceInfo_def)

text \<open>
  C4, as the code has it. In the record built from a line item, the fields of the line item
  take precedence on name collisions: every field of the line item (other than
  \<open>pageNumber\<close> and \<open>extractedInvoiceTotal\<close>, which are set afterwards) keeps the value of
  the line item, and the header gives the value only of the fields that the line item does
  not have.
\<close>

theorem line_item_fields_take_precedence:
  assumes "page_items pageTexts 0 \<noteq> []"
  shows "list_all2
           (\<lambda>r (j, period, item).
              \<forall>k. k \<noteq> ''pageNumber'' \<and> k \<noteq> ''extractedInvoiceTotal'' \<longrightarrow>
                (k \<in> dom item \<longrightarrow> r k = item k) \<and>
                (k \<notin> dom item \<and> k \<noteq> ''serviceProvisionPeriod'' \<longrightarrow>
                   r k = baseInvoiceInfo fullText fileName k))
           (extractInvoiceData fullText pageTexts fileName)
           (page_items pageTexts 0)"
proof -
  let ?total = "num_val (resolved_total pageTexts)"
  let ?base = "baseInvoiceInfo fullText fileName"
  let ?F = "\<lambda>(j, period, item). (page_record ?base period j item)(''extractedInvoiceTotal'' \<mapsto> ?total)"
  let ?P = "\<lambda>r (j, period, item).
              \<forall>k. k \<noteq> ''pageNumber'' \<and> k \<noteq> ''extractedInvoiceTotal'' \<longrightarrow>
                (k \<in> dom item \<longrightarrow> r k = item k) \<and>
                (k \<notin> dom item \<and> k \<noteq> ''serviceProvisionPeriod'' \<longrightarrow> r k = ?base k)"
  have eq: "extractInvoiceData fullText pageTexts fileName = map ?F (page_items pageTexts 0)"
    using assms by (simp only: extractInvoiceData_unfold if_False)
  have "?P (?F x) x" for x
  proof -
    obtain j period item where x: "x = (j, period, item)" by (cases x) auto
    have "((page_record ?base period j item)(''extractedInvoiceTotal'' \<mapsto> ?total)) k = item k"
      if "k \<noteq> ''pageNumber''" "k \<noteq> ''extractedInvoiceTotal''" "k \<in> dom item" for k
      using fun_upd_other [OF that(2)] page_record_item_field [OF that(3) that(1) that(2)]
      by metis
    moreover have "((page_record ?base period j item)(''extractedInvoiceTotal'' \<mapsto> ?total)) k = ?base k"
      if "k \<noteq> ''pageNumber''" "k \<noteq> ''extractedInvoiceTotal''" "k \<notin> dom item"
         "k \<noteq> ''serviceProvisionPeriod''" for k
      using fun_upd_other [OF that(2)] page_record_header_field [OF that(3) that(1) that(2) that(4)]
      by metis
    ultimately show ?thesis unfolding x by (simp only: prod.case) blast
  qed
  then have "list_all2 (\<lambda>x y. ?P (?F x) y) (page_items pageTexts 0) (page_items pageTexts 0)"
    by (simp only: list_all2_same) blast
  then have "list_all2 ?P (map ?F (page_items pageTexts 0)) (page_items pageTexts 0)"
    by (simp only: list_all2_map1)
  then show ?thesis by (simp only: eq)
qed
theorem line_item_fields_take_precedence_witness:
  "length (page_items [''VAT ID: NL123'' @ [newline] @
                        ''0010 123456 Consulting 5 PU 21%(V1) 100,00 500,00''] 0) = 1 \<and>
   (extractInvoiceData
      (''VAT ID: NL123'' @ [newline] @ ''0010 123456 Consulting 5 PU 21%(V1) 100,00 500,00'')
      [''VAT ID: NL123'' @ [newline] @ ''0010 123456 Consulting 5 PU 21%(V1) 100,00 500,00'']
      ''a.pdf'' ! 0) ''vat'' =
   snd (snd (page_items [''VAT ID: NL123'' @ [newline] @
                          ''0010 123456 Consulting 5 PU 21%(V1) 100,00 500,00''] 0 ! 0)) ''vat''"
proof -
  let ?T = "''VAT ID: NL123'' @ [newline] @ ''0010 123456 Consulting 5 PU 21%(V1) 100,00 500,00''"
  let ?items = "page_items [?T] 0"
  let ?result = "extractInvoiceData ?T [?T] ''a.pdf''"
  have len: "length ?items = 1" by code_simp
  then have ne: "?items \<noteq> []" by auto
  have dom: "snd (snd (?items ! 0)) ''vat'' = Some (VStr ''21%(V1)'')" by code_simp
  note all = line_item_fields_take_precedence [OF ne, of ?T "''a.pdf''"]
  have l: "length ?result = length ?items" using all by (rule list_all2_lengthD)
  have "0 < length ?result" using l len by simp
  from list_all2_nthD [OF all this]
  have "\<forall>k. k \<noteq> ''pageNumber'' \<and> k \<noteq> ''extractedInvoiceTotal'' \<longrightarrow>
          (k \<in> dom (snd (snd (?items ! 0))) \<longrightarrow> (?result ! 0) k = snd (snd (?items ! 0)) k) \<and>
          (k \<notin> dom (snd (snd (?items ! 0))) \<and> k \<noteq> ''serviceProvisionPeriod'' \<longrightarrow>
             (?result ! 0) k = baseInvoiceInfo ?T ''a.pdf'' k)"
    by (simp only: case_prod_unfold)
  then have "''vat'' \<in> dom (snd (snd (?items ! 0))) \<longrightarrow>
             (?result ! 0) ''vat'' = snd (snd (?items ! 0)) ''vat''"
    by simp
  moreover have "''vat'' \<in> dom (snd (snd (?items ! 0)))" using dom by (rule domI)
  ultimately have "(?result ! 0) ''vat'' = snd (snd (?items ! 0)) ''vat''" by (rule mp)
  with len show ?thesis by (intro conjI)
qed

text \<open>
  The claim as stated fails: on a page that gives the header the VAT ID \<open>NL123\<close> and holds
  a line item with the VAT token \<open>21%(V1)\<close>, the assembled record carries the token of the
  line item, not the value of the header.
\<close>

theorem header_vat_is_replaced_by_item_vat:
  "baseInvoiceInfo
     (''VAT ID: NL123'' @ [newline] @ ''0010 123456 Consulting 5 PU 21%(V1) 100,00 500,00'')
     ''a.pdf'' ''vat'' = Some (VStr ''NL123'') \<and>
   (extractInvoiceData
      (''VAT ID: NL123'' @ [newline] @ ''0010 123456 Consulting 5 PU 21%(V1) 100,00 500,00'')
      [''VAT ID: NL123'' @ [newline] @ ''0010 123456 Consulting 5 PU 21%(V1) 100,00 500,00'']
      ''a.pdf'' ! 0) ''vat'' = Some (VStr ''21%(V1)'')"
  by code_simp

section \<open>The sort and the choice of the total across pages\<close>










section \<open>Strategy 2: unit price and quantity\<close>

lemma describe_quantity:
  "snd (describe ts d) = Num 1 \<or>
   (\<exists>t \<in> set ts. re_test no_flags bare_number_re t \<and>
      snd (describe ts d) = parseFloat (replace_first t '','' ''.''))"
  by (induction ts arbitrary: d) auto

lemma describe_default:
  "\<forall>t \<in> set ts. \<not> re_test no_flags bare_number_re t \<Longrightarrow> snd (describe ts d) = Num 1"
  by (induction ts arbitrary: d) auto

lemma slice_subset: "hi \<le> hi' \<Longrightarrow> set (slice xs lo hi) \<subseteq> set (slice xs lo hi')"
  unfolding slice_def by (rule set_take_subset_set_take) simp

lemma find_index_from_bounds:
  "find_index_from p xs i = -1 \<or> (i \<le> find_index_from p xs i \<and> find_index_from p xs i < i + int (length xs))"
  by (induction xs arbitrary: i) (auto, force+)

text \<open>
  C5, as the code has it. For every line on which strategy 2 produces an item, with the
  line split into tokens at white space and the VAT anchor being the first token that holds
  one: the token after the VAT anchor exists, and \<open>unitPrice\<close> is its parsed value, or 0 when
  that value is \<open>null\<close>, NaN or 0; \<open>positionQuantity\<close> is 1 or the value of a bare number
  among the tokens between the material and the VAT anchor, and it is 1 when there is no
  bare number among them.
\<close>

theorem strategy2_unit_price_and_quantity:
  assumes "strategy2_line line = Some item"
  shows "(let parts = split_re no_flags (many1 space) (trim line);
              posIndex = findIndex (\<lambda>p i. re_test no_flags position_token_re p) parts;
              vatIndex = findIndex (\<lambda>p i. re_test no_flags vat_anchor p) parts
          in 0 \<le> posIndex \<and> posIndex < vatIndex \<and> vatIndex + 1 < int (length parts) \<and>
             item ''unitPrice'' = Some (VNum (or_zero (parseAmount (elem_at parts (vatIndex + 1))))) \<and>
             (\<exists>q. item ''positionQuantity'' = Some (VNum q) \<and>
                (q = Num 1 \<or>
                 (\<exists>t \<in> set (slice parts (posIndex + 2) vatIndex).
                    re_test no_flags bare_number_re t \<and> q = parseFloat (replace_first t '','' ''.''))) \<and>
                ((\<forall>t \<in> set (slice parts (posIndex + 2) vatIndex). \<not> re_test no_flags bare_number_re t)
                   \<longrightarrow> q = Num 1)))"
proof -
  define parts where "parts = split_re no_flags (many1 space) (trim line)"
  define posIndex where "posIndex = findIndex (\<lambda>p i. re_test no_flags position_token_re p) parts"
  define vatIndex where "vatIndex = findIndex (\<lambda>p i. re_test no_flags vat_anchor p) parts"
  define amountIndex where
    "amountIndex = findIndex (\<lambda>p i. i > vatIndex \<and> re_test no_flags amount_shape_re p) parts"
  define q where "q = snd (describe (slice parts (posIndex + 2) (vatIndex - 2)) [])"
  from assms have c: "0 \<le> posIndex" "posIndex < vatIndex" "vatIndex < amountIndex"
    unfolding strategy2_line_def Let_def parts_def [symmetric] posIndex_def [symmetric]
      vatIndex_def [symmetric] amountIndex_def [symmetric]
    by (auto split: if_splits)
  from assms c have up: "item ''unitPrice'' = Some (VNum (or_zero (parseAmount (elem_at parts (vatIndex + 1)))))"
    and qu: "item ''positionQuantity'' = Some (VNum q)"
    unfolding strategy2_line_def Let_def parts_def [symmetric] posIndex_def [symmetric]
      vatIndex_def [symmetric] amountIndex_def [symmetric] q_def
    by (auto split: if_splits)
  have "amountIndex = -1 \<or> (0 \<le> amountIndex \<and> amountIndex < 0 + int (length parts))"
    unfolding amountIndex_def findIndex_def by (rule find_index_from_bounds)
  with c have len: "vatIndex + 1 < int (length parts)" by auto
  have sub: "set (slice parts (posIndex + 2) (vatIndex - 2)) \<subseteq> set (slice parts (posIndex + 2) vatIndex)"
    by (rule slice_subset) simp
  have q1: "q = Num 1 \<or>
        (\<exists>t \<in> set (slice parts (posIndex + 2) vatIndex).
           re_test no_flags bare_number_re t \<and> q = parseFloat (replace_first t '','' ''.''))"
    using describe_quantity [of "slice parts (posIndex + 2) (vatIndex - 2)" "[]"] sub
    unfolding q_def by blast
  have q2: "(\<forall>t \<in> set (slice parts (posIndex + 2) vatIndex). \<not> re_test no_flags bare_number_re t)
              \<longrightarrow> q = Num 1"
    using describe_default [of "slice parts (posIndex + 2) (vatIndex - 2)" "[]"] sub
    unfolding q_def by blast
  show ?thesis
    unfolding Let_def parts_def [symmetric] posIndex_def [symmetric] vatIndex_def [symmetric]
    using c len up qu q1 q2 by blast
qed
theorem strategy2_unit_price_and_quantity_witness:
  "\<exists>item. strategy2_line ''0010 12345 Consulting 5 PU 21%(V1) 100,00 500,00'' = Some item \<and>
      item ''unitPrice'' = Some (VNum (Num 100))"
proof -
  let ?l = "''0010 12345 Consulting 5 PU 21%(V1) 100,00 500,00''"
  have "case strategy2_line ?l of None \<Rightarrow> False | Some item \<Rightarrow> True" by code_simp
  then obtain item where it: "strategy2_line ?l = Some item" by (auto split: option.splits)
  have v: "or_zero (parseAmount (elem_at (split_re no_flags (many1 space) (trim ?l))
             (findIndex (\<lambda>p i. re_test no_flags vat_anchor p)
                (split_re no_flags (many1 space) (trim ?l)) + 1))) = Num 100"
    by code_simp
  from strategy2_unit_price_and_quantity [OF it]
  have "item ''unitPrice'' =
          Some (VNum (or_zero (parseAmount (elem_at (split_re no_flags (many1 space) (trim ?l))
             (findIndex (\<lambda>p i. re_test no_flags vat_anchor p)
                (split_re no_flags (many1 space) (trim ?l)) + 1)))))"
    unfolding Let_def by blast
  with v it show ?thesis by simp
qed

text \<open>
  The claim as stated fails on the line
  "0010 12345 Consulting 5 PU 21%(V1) 100,00 500,00", which strategy 1 does not match (the
  material has five digits) and strategy 2 parses. The token before the VAT anchor is the
  unit "PU", which has no parsed value, yet \<open>unitPrice\<close> is 100, the value of the token
  after the anchor; and the bare integer 5 stands between the material and the anchor, yet
  \<open>positionQuantity\<close> is 1.
\<close>

theorem strategy2_reads_price_after_anchor:
  "length (List.map_filter strategy1_line
      (candidateLines ''0010 12345 Consulting 5 PU 21%(V1) 100,00 500,00'')) = 0 \<and>
   split_re no_flags (many1 space) (trim ''0010 12345 Consulting 5 PU 21%(V1) 100,00 500,00'') =
     [''0010'', ''12345'', ''Consulting'', ''5'', ''PU'', ''21%(V1)'', ''100,00'', ''500,00''] \<and>
   parseAmount (Some ''PU'') = Some NaN \<and>
   (extractLineItems ''0010 12345 Consulting 5 PU 21%(V1) 100,00 500,00'' 1 ! 0) ''unitPrice''
     = Some (VNum (Num 100)) \<and>
   (extractLineItems ''0010 12345 Consulting 5 PU 21%(V1) 100,00 500,00'' 1 ! 0) ''positionQuantity''
     = Some (VNum (Num 1))"
  by code_simp

section \<open>The matcher against the relation\<close>

lemma star_unfold:
  "(st, x) \<in> (progress R)\<^sup>* O S \<longleftrightarrow>
     (st, x) \<in> S \<or>
     (\<exists>s1. (st, s1) \<in> R \<and> length (after s1) < length (after st) \<and> (s1, x) \<in> (progress R)\<^sup>* O S)"
proof
  assume "(st, x) \<in> (progress R)\<^sup>* O S"
  then obtain y where y: "(st, y) \<in> (progress R)\<^sup>*" "(y, x) \<in> S" by auto
  from y(1) show "(st, x) \<in> S \<or>
     (\<exists>s1. (st, s1) \<in> R \<and> length (after s1) < length (after st) \<and> (s1, x) \<in> (progress R)\<^sup>* O S)"
  proof (cases rule: converse_rtranclE)
    case base
    then show ?thesis using y(2) by simp
  next
    case (step s1)
    then show ?thesis using y(2) by (auto simp: progress_def)
  qed
next
  assume "(st, x) \<in> S \<or>
     (\<exists>s1. (st, s1) \<in> R \<and> length (after s1) < length (after st) \<and> (s1, x) \<in> (progress R)\<^sup>* O S)"
  then show "(st, x) \<in> (progress R)\<^sup>* O S"
  proof
    assume "(st, x) \<in> S"
    then show ?thesis by auto
  next
    assume "\<exists>s1. (st, s1) \<in> R \<and> length (after s1) < length (after st) \<and> (s1, x) \<in> (progress R)\<^sup>* O S"
    then obtain s1 y where "(st, s1) \<in> progress R" "(s1, y) \<in> (progress R)\<^sup>*" "(y, x) \<in> S"
      by (auto simp: progress_def)
    then show ?thesis by (meson converse_rtrancl_into_rtrancl relcomp.relcompI)
  qed
qed

lemma ms_sems:
  "(\<forall>x. ms f stk st = Some x \<longrightarrow> (st, x) \<in> sems f stk) \<and>
   (ms f stk st = None \<longrightarrow> (\<forall>x. (st, x) \<notin> sems f stk))"
proof (induction f stk st rule: ms.induct)
  case (1 f st)
  then show ?case by simp
next
  case (2 f cs stk st)
  then show ?case by (cases "after st") (auto simp: relcomp_unfold)
next
  case (3 f stk st)
  then show ?case by simp
next
  case (4 f r1 r2 stk st)
  then show ?case by (simp add: O_assoc)
next
  case (5 f r1 r2 stk st)
  then show ?case by (cases "ms f (FRe r1 # stk) st") auto
next
  case (6 f r stk st)
  let ?first = "ms f (FRe r # FLoop (Star r) (length (after st)) # stk) st"
  have inner: "(st, x) \<in> sems f (FRe r # FLoop (Star r) (length (after st)) # stk) \<longleftrightarrow>
     (\<exists>s1. (st, s1) \<in> sem f r \<and> length (after s1) < length (after st) \<and>
            (s1, x) \<in> (progress (sem f r))\<^sup>* O sems f stk)" for x
    by (auto simp: relcomp_unfold)
  show ?case
  proof (cases ?first)
    case None
    with 6 show ?thesis
      by (simp add: star_unfold [of st _ "sem f r" "sems f stk"] inner [symmetric])
  next
    case (Some y)
    with 6 show ?thesis
      by (simp add: star_unfold [of st _ "sem f r" "sems f stk"] inner [symmetric])
  qed
next
  case (7 f r stk st)
  let ?second = "ms f (FRe r # FLoop (LazyStar r) (length (after st)) # stk) st"
  have inner: "(st, x) \<in> sems f (FRe r # FLoop (LazyStar r) (length (after st)) # stk) \<longleftrightarrow>
     (\<exists>s1. (st, s1) \<in> sem f r \<and> length (after s1) < length (after st) \<and>
            (s1, x) \<in> (progress (sem f r))\<^sup>* O sems f stk)" for x
    by (auto simp: relcomp_unfold)
  show ?case
  proof (cases "ms f stk st")
    case None
    with 7 show ?thesis
      by (cases ?second) (simp_all add: star_unfold [of st _ "sem f r" "sems f stk"] inner [symmetric])
  next
    case (Some y)
    with 7 show ?thesis
      by (simp add: star_unfold [of st _ "sem f r" "sems f stk"] inner [symmetric])
  qed
next
  case (8 f r n stk st)
  then show ?case by auto
next
  case (9 f n r stk st)
  have "(st, x) \<in> sems f (FRe (Grp n r) # stk) \<longleftrightarrow> (st, x) \<in> sems f (FRe r # FGrp n (after st) # stk)" for x
    by (auto simp: relcomp_unfold)
  with 9 show ?case by simp
next
  case (10 f n start stk st)
  then show ?case by (simp add: set_group_def)
next
  case (11 f stk st)
  then show ?case by (auto simp: relcomp_unfold)
next
  case (12 f stk st)
  then show ?case by (auto simp: relcomp_unfold)
next
  case (13 f stk st)
  then show ?case by (auto simp: relcomp_unfold)
next
  case (14 f r stk st)
  then show ?case by (cases "ms f [FRe r] st") (auto simp: relcomp_unfold)
qed
lemma sem_lang:
  "pure r \<Longrightarrow> (st, st') \<in> sem f r \<Longrightarrow>
   \<exists>w \<in> lang (icase f) r. after st = w @ after st' \<and> before st' = rev w @ before st"
proof (induction r arbitrary: st st')
  case (Chr cs)
  then show ?case by auto
next
  case Eps
  then show ?case by auto
next
  case (Seq a b)
  from Seq.prems obtain y where y: "(st, y) \<in> sem f a" "(y, st') \<in> sem f b" by auto
  from Seq.IH(1) [OF _ y(1)] Seq.prems(1) obtain u where
    u: "u \<in> lang (icase f) a" "after st = u @ after y" "before y = rev u @ before st" by auto
  from Seq.IH(2) [OF _ y(2)] Seq.prems(1) obtain v where
    v: "v \<in> lang (icase f) b" "after y = v @ after st'" "before st' = rev v @ before y" by auto
  have "u @ v \<in> lang (icase f) (Seq a b)" using u(1) v(1) by auto
  moreover have "after st = (u @ v) @ after st'" using u(2) v(2) by simp
  moreover have "before st' = rev (u @ v) @ before st" using u(3) v(3) by simp
  ultimately show ?case by blast
next
  case (Alt a b)
  from Alt.prems(2) have "(st, st') \<in> sem f a \<or> (st, st') \<in> sem f b" by simp
  then show ?case
  proof
    assume "(st, st') \<in> sem f a"
    from Alt.IH(1) [OF _ this] Alt.prems(1) show ?thesis by auto
  next
    assume "(st, st') \<in> sem f b"
    from Alt.IH(2) [OF _ this] Alt.prems(1) show ?thesis by auto
  qed
next
  case (Star a)
  from Star.prems(2) have "(st, st') \<in> (progress (sem f a))\<^sup>*" by simp
  then have "\<exists>ws. (\<forall>w \<in> set ws. w \<in> lang (icase f) a \<and> w \<noteq> []) \<and>
                  after st = concat ws @ after st' \<and> before st' = rev (concat ws) @ before st"
  proof (induction rule: rtrancl_induct)
    case base
    have "(\<forall>w \<in> set []. w \<in> lang (icase f) a \<and> w \<noteq> []) \<and>
          after st = concat [] @ after st \<and> before st = rev (concat []) @ before st" by simp
    then show ?case by blast
  next
    case (step y z)
    from step.IH obtain ws where ws: "\<forall>w \<in> set ws. w \<in> lang (icase f) a \<and> w \<noteq> []"
      "after st = concat ws @ after y" "before y = rev (concat ws) @ before st" by blast
    from step.hyps(2) have yz: "(y, z) \<in> sem f a" "length (after z) < length (after y)"
      by (auto simp: progress_def)
    from Star.IH [OF _ yz(1)] Star.prems(1) obtain w where
      w: "w \<in> lang (icase f) a" "after y = w @ after z" "before z = rev w @ before y" by auto
    have "w \<noteq> []" using w(2) yz(2) by auto
    then have "\<forall>x \<in> set (ws @ [w]). x \<in> lang (icase f) a \<and> x \<noteq> []" using ws(1) w(1) by auto
    moreover have "after st = concat (ws @ [w]) @ after z" using ws(2) w(2) by simp
    moreover have "before z = rev (concat (ws @ [w])) @ before st" using ws(3) w(3) by simp
    ultimately show ?case by blast
  qed
  then show ?case by auto
next
  case (LazyStar a)
  from LazyStar.prems(2) have "(st, st') \<in> (progress (sem f a))\<^sup>*" by simp
  then have "\<exists>ws. (\<forall>w \<in> set ws. w \<in> lang (icase f) a \<and> w \<noteq> []) \<and>
                  after st = concat ws @ after st' \<and> before st' = rev (concat ws) @ before st"
  proof (induction rule: rtrancl_induct)
    case base
    have "(\<forall>w \<in> set []. w \<in> lang (icase f) a \<and> w \<noteq> []) \<and>
          after st = concat [] @ after st \<and> before st = rev (concat []) @ before st" by simp
    then show ?case by blast
  next
    case (step y z)
    from step.IH obtain ws where ws: "\<forall>w \<in> set ws. w \<in> lang (icase f) a \<and> w \<noteq> []"
      "after st = concat ws @ after y" "before y = rev (concat ws) @ before st" by blast
    from step.hyps(2) have yz: "(y, z) \<in> sem f a" "length (after z) < length (after y)"
      by (auto simp: progress_def)
    from LazyStar.IH [OF _ yz(1)] LazyStar.prems(1) obtain w where
      w: "w \<in> lang (icase f) a" "after y = w @ after z" "before z = rev w @ before y" by auto
    have "w \<noteq> []" using w(2) yz(2) by auto
    then have "\<forall>x \<in> set (ws @ [w]). x \<in> lang (icase f) a \<and> x \<noteq> []" using ws(1) w(1) by auto
    moreover have "after st = concat (ws @ [w]) @ after z" using ws(2) w(2) by simp
    moreover have "before z = rev (concat (ws @ [w])) @ before st" using ws(3) w(3) by simp
    ultimately show ?case by blast
  qed
  then show ?case by auto
next
  case (Grp n a)
  from Grp.prems obtain y where y: "(st, y) \<in> sem f a" "st' = set_group n (after st) y" by auto
  from Grp.IH [OF _ y(1)] Grp.prems(1) show ?case using y(2) by (auto simp: set_group_def)
qed simp_all

lemma star_path:
  assumes step: "\<And>w b a g. w \<in> L \<Longrightarrow> \<exists>g'. (MState b (w @ a) g, MState (rev w @ b) a g') \<in> R"
    and "\<forall>w \<in> set ws. w \<in> L \<and> w \<noteq> []"
  shows "\<exists>g'. (MState b (concat ws @ a) g, MState (rev (concat ws) @ b) a g') \<in> (progress R)\<^sup>*"
  using assms(2)
proof (induction ws arbitrary: b g)
  case Nil
  then show ?case by auto
next
  case (Cons w ws)
  then have w: "w \<in> L" "w \<noteq> []" by auto
  from step [OF w(1), of b "concat ws @ a" g] obtain g1 where
    "(MState b (w @ concat ws @ a) g, MState (rev w @ b) (concat ws @ a) g1) \<in> R" by blast
  then have s1: "(MState b (w @ concat ws @ a) g, MState (rev w @ b) (concat ws @ a) g1) \<in> progress R"
    using w(2) by (simp add: progress_def)
  from Cons.IH [of "rev w @ b" g1] Cons.prems obtain g2 where
    "(MState (rev w @ b) (concat ws @ a) g1, MState (rev (concat ws) @ rev w @ b) a g2) \<in> (progress R)\<^sup>*"
    by auto
  with s1 have "(MState b (w @ concat ws @ a) g, MState (rev (concat ws) @ rev w @ b) a g2) \<in> (progress R)\<^sup>*"
    by (rule converse_rtrancl_into_rtrancl)
  then show ?case by auto
qed

lemma lang_sem:
  "pure r \<Longrightarrow> w \<in> lang (icase f) r \<Longrightarrow>
   \<exists>g'. (MState b (w @ a) g, MState (rev w @ b) a g') \<in> sem f r"
proof (induction r arbitrary: w b a g)
  case (Chr cs)
  then show ?case by auto
next
  case Eps
  then show ?case by auto
next
  case (Seq r1 r2)
  from Seq.prems obtain u v where uv: "w = u @ v" "u \<in> lang (icase f) r1" "v \<in> lang (icase f) r2"
    by auto
  from Seq.IH(1) [OF _ uv(2), of b "v @ a" g] Seq.prems(1) obtain g1 where
    g1: "(MState b (u @ v @ a) g, MState (rev u @ b) (v @ a) g1) \<in> sem f r1" by auto
  from Seq.IH(2) [OF _ uv(3), of "rev u @ b" a g1] Seq.prems(1) obtain g2 where
    g2: "(MState (rev u @ b) (v @ a) g1, MState (rev v @ rev u @ b) a g2) \<in> sem f r2" by auto
  from g1 g2 have "(MState b (u @ v @ a) g, MState (rev v @ rev u @ b) a g2) \<in> sem f (Seq r1 r2)"
    by auto
  then show ?case using uv(1) by auto
next
  case (Alt r1 r2)
  then show ?case by (auto, blast+)
next
  case (Star r)
  from Star.prems obtain ws where ws: "w = concat ws" "\<forall>x \<in> set ws. x \<in> lang (icase f) r \<and> x \<noteq> []"
    by auto
  have "\<And>w b a g. w \<in> lang (icase f) r \<Longrightarrow>
          \<exists>g'. (MState b (w @ a) g, MState (rev w @ b) a g') \<in> sem f r"
    using Star.IH Star.prems(1) by simp
  from star_path [of "lang (icase f) r" "sem f r", OF this ws(2)] show ?case using ws(1) by simp
next
  case (LazyStar r)
  from LazyStar.prems obtain ws where ws: "w = concat ws" "\<forall>x \<in> set ws. x \<in> lang (icase f) r \<and> x \<noteq> []"
    by auto
  have "\<And>w b a g. w \<in> lang (icase f) r \<Longrightarrow>
          \<exists>g'. (MState b (w @ a) g, MState (rev w @ b) a g') \<in> sem f r"
    using LazyStar.IH LazyStar.prems(1) by simp
  from star_path [of "lang (icase f) r" "sem f r", OF this ws(2)] show ?case using ws(1) by simp
next
  case (Grp n r)
  from Grp.IH [of w b a g] Grp.prems obtain g1 where
    "(MState b (w @ a) g, MState (rev w @ b) a g1) \<in> sem f r" by auto
  then have "(MState b (w @ a) g, set_group n (w @ a) (MState (rev w @ b) a g1)) \<in> sem f (Grp n r)"
    by auto
  then show ?case by (auto simp: set_group_def)
qed simp_all

section \<open>The search for the leftmost match\<close>

lemma match_here_None_iff:
  "match_here f r b u = None \<longleftrightarrow> (\<forall>x. (MState b u [], x) \<notin> sem f r)"
  using ms_sems [of f "[FRe r]" "MState b u []"]
  by (auto simp: match_here_def split: option.splits)

lemma match_here_SomeD:
  assumes "match_here f r b u = Some mr"
  shows "\<exists>x. (MState b u [], x) \<in> sem f r \<and>
             mr = RMatch (length b) (take (length u - length (after x)) u) (groups x)"
  using assms ms_sems [of f "[FRe r]" "MState b u []"]
  by (auto simp: match_here_def split: option.splits)

lemma exec_from_None_iff:
  "exec_from f r b s = None \<longleftrightarrow> (\<forall>p u. s = p @ u \<longrightarrow> match_here f r (rev p @ b) u = None)"
proof (induction s arbitrary: b)
  case Nil
  then show ?case by simp
next
  case (Cons c cs)
  show ?case
  proof
    assume n: "exec_from f r b (c # cs) = None"
    then have h: "match_here f r b (c # cs) = None" and t: "exec_from f r (c # b) cs = None"
      by (auto split: option.splits)
    show "\<forall>p u. c # cs = p @ u \<longrightarrow> match_here f r (rev p @ b) u = None"
    proof (intro allI impI)
      fix p u assume e: "c # cs = p @ u"
      show "match_here f r (rev p @ b) u = None"
      proof (cases p)
        case Nil
        then show ?thesis using e h by simp
      next
        case (Cons x p')
        then have "cs = p' @ u" "x = c" using e by auto
        then show ?thesis using t Cons.IH [of "c # b"] Cons by simp
      qed
    qed
  next
    assume a: "\<forall>p u. c # cs = p @ u \<longrightarrow> match_here f r (rev p @ b) u = None"
    then have h: "match_here f r b (c # cs) = None" by (metis append_Nil rev.simps(1))
    have "\<forall>p u. cs = p @ u \<longrightarrow> match_here f r (rev p @ c # b) u = None"
    proof (intro allI impI)
      fix p u assume "cs = p @ u"
      then have "c # cs = (c # p) @ u" by simp
      from a [rule_format, OF this] show "match_here f r (rev p @ c # b) u = None" by simp
    qed
    then have "exec_from f r (c # b) cs = None" using Cons.IH [of "c # b"] by simp
    with h show "exec_from f r b (c # cs) = None" by simp
  qed
qed

lemma exec_from_SomeD:
  "exec_from f r b s = Some mr \<Longrightarrow>
   \<exists>p u. s = p @ u \<and> match_here f r (rev p @ b) u = Some mr \<and>
         (\<forall>p' u'. s = p' @ u' \<and> length p' < length p \<longrightarrow> match_here f r (rev p' @ b) u' = None)"
proof (induction s arbitrary: b)
  case Nil
  then show ?case by simp
next
  case (Cons c cs)
  show ?case
  proof (cases "match_here f r b (c # cs)")
    case (Some y)
    then have "y = mr" using Cons.prems by simp
    then have "c # cs = [] @ (c # cs) \<and> match_here f r (rev [] @ b) (c # cs) = Some mr \<and>
         (\<forall>p' u'. c # cs = p' @ u' \<and> length p' < length ([]::string) \<longrightarrow>
            match_here f r (rev p' @ b) u' = None)"
      using Some by simp
    then show ?thesis by blast
  next
    case None
    then have "exec_from f r (c # b) cs = Some mr" using Cons.prems by simp
    from Cons.IH [OF this] obtain p u where pu: "cs = p @ u"
      "match_here f r (rev p @ c # b) u = Some mr"
      "\<forall>p' u'. cs = p' @ u' \<and> length p' < length p \<longrightarrow> match_here f r (rev p' @ c # b) u' = None"
      by blast
    have "\<forall>p' u'. c # cs = p' @ u' \<and> length p' < length (c # p) \<longrightarrow>
            match_here f r (rev p' @ b) u' = None"
    proof (intro allI impI)
      fix p' u' assume a: "c # cs = p' @ u' \<and> length p' < length (c # p)"
      show "match_here f r (rev p' @ b) u' = None"
      proof (cases p')
        case Nil
        then show ?thesis using a None by simp
      next
        case (Cons x q)
        then have "cs = q @ u'" "x = c" "length q < length p" using a by auto
        then show ?thesis using pu(3) Cons by simp
      qed
    qed
    moreover have "c # cs = (c # p) @ u" using pu(1) by simp
    moreover have "match_here f r (rev (c # p) @ b) u = Some mr" using pu(2) by simp
    ultimately show ?thesis by blast
  qed
qed

lemma match_here_matches:
  assumes "(MState b u [], x) \<in> sem f r"
  shows "match_here f r b u \<noteq> None"
proof
  assume "match_here f r b u = None"
  then have "\<forall>x. (MState b u [], x) \<notin> sem f r" by (rule match_here_None_iff [THEN iffD1])
  with assms show False by blast
qed

lemma re_exec_None_iff:
  "re_exec f r s = None \<longleftrightarrow> (\<forall>p u. s = p @ u \<longrightarrow> match_here f r (rev p) u = None)"
  using exec_from_None_iff [of f r "[]" s] by (simp add: re_exec_def)

lemma re_exec_matches:
  assumes "s = p @ u" "match_here f r (rev p) u \<noteq> None"
  shows "re_exec f r s \<noteq> None"
proof
  assume "re_exec f r s = None"
  then have "\<forall>p u. s = p @ u \<longrightarrow> match_here f r (rev p) u = None"
    by (rule re_exec_None_iff [THEN iffD1])
  from this [rule_format, OF assms(1)] assms(2) show False by (rule notE [rotated])
qed

lemma re_exec_SomeD:
  assumes "re_exec f r s = Some mr"
  shows "\<exists>p u. s = p @ u \<and> match_here f r (rev p) u = Some mr \<and>
           (\<forall>p' u'. s = p' @ u' \<and> length p' < length p \<longrightarrow> match_here f r (rev p') u' = None)"
  using exec_from_SomeD [of f r "[]" s mr] assms by (simp add: re_exec_def)

lemma re_exec_pure_iff:
  assumes "pure r"
  shows "re_exec f r s \<noteq> None \<longleftrightarrow> (\<exists>p w u. s = p @ w @ u \<and> w \<in> lang (icase f) r)"
proof
  assume "re_exec f r s \<noteq> None"
  then obtain mr where "re_exec f r s = Some mr" by auto
  from re_exec_SomeD [OF this] obtain p u where pu: "s = p @ u"
    "match_here f r (rev p) u = Some mr" by blast
  from match_here_SomeD [OF pu(2)] obtain x where x: "(MState (rev p) u [], x) \<in> sem f r"
    by blast
  from sem_lang [OF assms x] obtain w where w: "w \<in> lang (icase f) r"
    "after (MState (rev p) u []) = w @ after x" by blast
  from w(2) have "u = w @ after x" by simp
  with pu(1) have "s = p @ w @ after x" by simp
  with w(1) show "\<exists>p w u. s = p @ w @ u \<and> w \<in> lang (icase f) r" by blast
next
  assume "\<exists>p w u. s = p @ w @ u \<and> w \<in> lang (icase f) r"
  then obtain p w u where pwu: "s = p @ w @ u" "w \<in> lang (icase f) r" by blast
  from lang_sem [OF assms pwu(2), of "rev p" u "[]"] obtain g' where
    g: "(MState (rev p) (w @ u) [], MState (rev w @ rev p) u g') \<in> sem f r" by blast
  from match_here_matches [OF g] have "match_here f r (rev p) (w @ u) \<noteq> None" .
  moreover have "s = p @ (w @ u)" using pwu(1) by simp
  ultimately show "re_exec f r s \<noteq> None" by (rule re_exec_matches [rotated])
qed

section \<open>Letter case\<close>

lemma code_range: "0 \<le> code c \<and> code c < 256"
  unfolding code_def by (simp add: of_char_def) 

lemma code_inj: "code c = code d \<longleftrightarrow> c = d"
  unfolding code_def by simp

lemma code_char_of: "0 \<le> n \<Longrightarrow> n < 256 \<Longrightarrow> code (char_of n) = n"
  unfolding code_def by (simp add: take_bit_eq_mod)

lemma code_lower_char:
  "code (lower_char c) =
     (if (65 \<le> code c \<and> code c \<le> 90) \<or> (192 \<le> code c \<and> code c \<le> 222 \<and> code c \<noteq> 215)
      then code c + 32 else code c)"
  using code_range [of c] by (auto simp: lower_char_def is_upper_def code_char_of)

lemma code_upper_char:
  "code (upper_char c) =
     (if (97 \<le> code c \<and> code c \<le> 122) \<or> (224 \<le> code c \<and> code c \<le> 254 \<and> code c \<noteq> 247)
      then code c - 32 else code c)"
  using code_range [of c] by (auto simp: upper_char_def is_lower_def code_char_of)

lemma ieq_lower: "upper_char c = upper_char d \<longleftrightarrow> lower_char c = lower_char d"
proof -
  have "code (upper_char c) = code (upper_char d) \<longleftrightarrow> code (lower_char c) = code (lower_char d)"
    unfolding code_lower_char code_upper_char by presburger
  then show ?thesis by (simp only: code_inj)
qed


section \<open>Literal texts and whole words\<close>

lemma lang_chr_seq:
  "w \<in> lang ic (Seq (Chr cs) r) \<longleftrightarrow> (\<exists>x xs. w = x # xs \<and> cset_match ic cs x \<and> xs \<in> lang ic r)"
proof
  assume "w \<in> lang ic (Seq (Chr cs) r)"
  then obtain u v where "w = u @ v" "u \<in> lang ic (Chr cs)" "v \<in> lang ic r" by auto
  then show "\<exists>x xs. w = x # xs \<and> cset_match ic cs x \<and> xs \<in> lang ic r" by auto
next
  assume "\<exists>x xs. w = x # xs \<and> cset_match ic cs x \<and> xs \<in> lang ic r"
  then obtain x xs where h: "w = x # xs" "cset_match ic cs x" "xs \<in> lang ic r" by blast
  then have "w = [x] @ xs" "[x] \<in> lang ic (Chr cs)" by auto
  with h(3) show "w \<in> lang ic (Seq (Chr cs) r)" unfolding lang.simps by blast
qed

lemma lang_str_icase: "w \<in> lang True (str s) \<longleftrightarrow> toLowerCase w = toLowerCase s"
proof (induction s arbitrary: w rule: str.induct)
  case 1
  then show ?case by (simp add: toLowerCase_def)
next
  case (2 c)
  show ?case by (cases w) (auto simp: toLowerCase_def ieq_lower)
next
  case (3 c d cs)
  have "w \<in> lang True (str (c # d # cs)) \<longleftrightarrow>
        (\<exists>x xs. w = x # xs \<and> cset_match True (CLit c) x \<and> xs \<in> lang True (str (d # cs)))"
    using lang_chr_seq [of w True "CLit c" "str (d # cs)"] by simp
  also have "\<dots> \<longleftrightarrow> (\<exists>x xs. w = x # xs \<and> lower_char x = lower_char c \<and>
                          toLowerCase xs = toLowerCase (d # cs))"
    using 3 by (simp add: ieq_lower)
  also have "\<dots> \<longleftrightarrow> toLowerCase w = toLowerCase (c # d # cs)"
    by (cases w) (auto simp: toLowerCase_def)
  finally show ?case .
qed











section \<open>The tests on the text of a page\<close>





section \<open>Lines of a page\<close>

lemma lang_star_chr: "lang ic (Star (Chr cs)) = {w. \<forall>c \<in> set w. cset_match ic cs c}"
proof (intro set_eqI iffI)
  fix w assume "w \<in> lang ic (Star (Chr cs))"
  then obtain ws where ws: "w = concat ws" "\<forall>x \<in> set ws. x \<in> lang ic (Chr cs) \<and> x \<noteq> []" by auto
  have "\<forall>c \<in> set (concat ws). cset_match ic cs c" using ws(2) by (induction ws) auto
  then show "w \<in> {w. \<forall>c \<in> set w. cset_match ic cs c}" using ws(1) by simp
next
  fix w assume "w \<in> {w. \<forall>c \<in> set w. cset_match ic cs c}"
  then have a: "\<forall>c \<in> set w. cset_match ic cs c" by simp
  have "w = concat (map (\<lambda>c. [c]) w)" by (induction w) auto
  moreover have "\<forall>x \<in> set (map (\<lambda>c. [c]) w). x \<in> lang ic (Chr cs) \<and> x \<noteq> []" using a by auto
  ultimately show "w \<in> lang ic (Star (Chr cs))" unfolding lang.simps by blast
qed













section \<open>The three kinds of page\<close>















section \<open>The texts of counted expressions\<close>

lemma lang_seq: "w \<in> lang ic (Seq a b) \<longleftrightarrow> (\<exists>u v. w = u @ v \<and> u \<in> lang ic a \<and> v \<in> lang ic b)"
  by auto

lemma lang_exactly_chr:
  "w \<in> lang ic (exactly n (Chr cs)) \<longleftrightarrow> length w = n \<and> (\<forall>c \<in> set w. cset_match ic cs c)"
proof (induction n arbitrary: w)
  case 0
  then show ?case by auto
next
  case (Suc n)
  show ?case
  proof (cases n)
    case 0
    then show ?thesis by (auto simp: length_Suc_conv)
  next
    case (Suc m)
    then have "exactly (Suc n) (Chr cs) = Seq (Chr cs) (exactly n (Chr cs))" by simp
    then have "w \<in> lang ic (exactly (Suc n) (Chr cs)) \<longleftrightarrow>
        (\<exists>x xs. w = x # xs \<and> cset_match ic cs x \<and> xs \<in> lang ic (exactly n (Chr cs)))"
      by (simp only: lang_chr_seq)
    also have "\<dots> \<longleftrightarrow> (\<exists>x xs. w = x # xs \<and> cset_match ic cs x \<and> length xs = n \<and>
                            (\<forall>c \<in> set xs. cset_match ic cs c))"
      by (simp only: Suc.IH)
    also have "\<dots> \<longleftrightarrow> length w = Suc n \<and> (\<forall>c \<in> set w. cset_match ic cs c)"
      by (cases w) auto
    finally show ?thesis .
  qed
qed

lemma lang_at_most_chr:
  "w \<in> lang ic (at_most n (Chr cs)) \<longleftrightarrow> length w \<le> n \<and> (\<forall>c \<in> set w. cset_match ic cs c)"
proof (induction n arbitrary: w)
  case 0
  then show ?case by auto
next
  case (Suc n)
  have "w \<in> lang ic (at_most (Suc n) (Chr cs)) \<longleftrightarrow>
        w = [] \<or> (\<exists>x xs. w = x # xs \<and> cset_match ic cs x \<and> xs \<in> lang ic (at_most n (Chr cs)))"
    using lang_chr_seq [of w ic cs "at_most n (Chr cs)"] by auto
  also have "\<dots> \<longleftrightarrow> w = [] \<or> (\<exists>x xs. w = x # xs \<and> cset_match ic cs x \<and> length xs \<le> n \<and>
                            (\<forall>c \<in> set xs. cset_match ic cs c))"
    by (simp only: Suc.IH)
  also have "\<dots> \<longleftrightarrow> length w \<le> Suc n \<and> (\<forall>c \<in> set w. cset_match ic cs c)"
    by (cases w) auto
  finally show ?case .
qed

lemma lang_from_to_chr:
  assumes "lo \<le> hi"
  shows "w \<in> lang ic (from_to lo hi (Chr cs)) \<longleftrightarrow>
     lo \<le> length w \<and> length w \<le> hi \<and> (\<forall>c \<in> set w. cset_match ic cs c)"
proof
  assume "w \<in> lang ic (from_to lo hi (Chr cs))"
  then obtain u v where "w = u @ v" "u \<in> lang ic (exactly lo (Chr cs))"
    "v \<in> lang ic (at_most (hi - lo) (Chr cs))" unfolding from_to_def lang_seq by blast
  then show "lo \<le> length w \<and> length w \<le> hi \<and> (\<forall>c \<in> set w. cset_match ic cs c)"
    unfolding lang_exactly_chr lang_at_most_chr using assms by auto
next
  assume a: "lo \<le> length w \<and> length w \<le> hi \<and> (\<forall>c \<in> set w. cset_match ic cs c)"
  have "take lo w \<in> lang ic (exactly lo (Chr cs))"
    unfolding lang_exactly_chr using a by (auto dest: in_set_takeD)
  moreover have "drop lo w \<in> lang ic (at_most (hi - lo) (Chr cs))"
    unfolding lang_at_most_chr using a by (auto dest: in_set_dropD)
  moreover have "w = take lo w @ drop lo w" by simp
  ultimately show "w \<in> lang ic (from_to lo hi (Chr cs))"
    unfolding from_to_def lang_seq by blast
qed

lemma lang_opt: "w \<in> lang ic (opt r) \<longleftrightarrow> w = [] \<or> w \<in> lang ic r"
  by (auto simp: opt_def)

lemma lang_chr: "w \<in> lang ic (Chr cs) \<longleftrightarrow> (\<exists>c. w = [c] \<and> cset_match ic cs c)"
  by auto

lemma lit_icase_exact:
  assumes "\<not> is_lower d" "\<not> is_upper d" "code d < 181"
  shows "cset_match True (CLit d) c \<longleftrightarrow> c = d"
proof -
  have "code (upper_char c) = code (upper_char d) \<longleftrightarrow> code c = code d"
    unfolding code_upper_char using assms code_range [of c] code_range [of d]
    unfolding is_lower_def is_upper_def by presburger
  then show ?thesis by (simp add: code_inj)
qed

lemma dot_slash_match:
  "cset_match True (COneOf [CLit (CHR ''.''), CLit (CHR ''/'')]) c \<longleftrightarrow> c = CHR ''.'' \<or> c = CHR ''/''"
proof -
  have d: "\<not> is_lower (CHR ''.'')" "\<not> is_upper (CHR ''.'')" "code (CHR ''.'') < 181"
    by code_simp+
  have s: "\<not> is_lower (CHR ''/'')" "\<not> is_upper (CHR ''/'')" "code (CHR ''/'') < 181"
    by code_simp+
  show ?thesis using lit_icase_exact [OF d] lit_icase_exact [OF s] by simp
qed

lemma colon_match: "cset_match True (CLit (CHR '':'')) c \<longleftrightarrow> c = CHR '':''"
proof -
  have "\<not> is_lower (CHR '':'')" "\<not> is_upper (CHR '':'')" "code (CHR '':'') < 181"
    by code_simp+
  then show ?thesis by (rule lit_icase_exact)
qed


section \<open>The date of the invoice\<close>

lemma lang_seqs3:
  "w \<in> lang ic (seqs [a, b, c]) \<longleftrightarrow>
     (\<exists>x y z. w = x @ y @ z \<and> x \<in> lang ic a \<and> y \<in> lang ic b \<and> z \<in> lang ic c)"
proof -
  have "w \<in> lang ic (seqs [a, b, c]) \<longleftrightarrow>
     (\<exists>x r. w = x @ r \<and> x \<in> lang ic a \<and> (\<exists>y z. r = y @ z \<and> y \<in> lang ic b \<and> z \<in> lang ic c))"
    by (simp only: seqs.simps lang_seq)
  also have "\<dots> \<longleftrightarrow>
     (\<exists>x y z. w = x @ y @ z \<and> x \<in> lang ic a \<and> y \<in> lang ic b \<and> z \<in> lang ic c)"
    by blast
  finally show ?thesis .
qed

lemma lang_seqs5:
  "w \<in> lang ic (seqs [a, b, c, d, e]) \<longleftrightarrow>
     (\<exists>x y z u v. w = x @ y @ z @ u @ v \<and> x \<in> lang ic a \<and> y \<in> lang ic b \<and> z \<in> lang ic c \<and>
        u \<in> lang ic d \<and> v \<in> lang ic e)"
proof -
  have "w \<in> lang ic (seqs [a, b, c, d, e]) \<longleftrightarrow>
     (\<exists>x r. w = x @ r \<and> x \<in> lang ic a \<and>
        (\<exists>y q. r = y @ q \<and> y \<in> lang ic b \<and> q \<in> lang ic (seqs [c, d, e])))"
    by (simp only: seqs.simps lang_seq)
  also have "\<dots> \<longleftrightarrow>
     (\<exists>x r. w = x @ r \<and> x \<in> lang ic a \<and>
        (\<exists>y q. r = y @ q \<and> y \<in> lang ic b \<and>
           (\<exists>z u v. q = z @ u @ v \<and> z \<in> lang ic c \<and> u \<in> lang ic d \<and> v \<in> lang ic e)))"
    by (simp only: lang_seqs3)
  also have "\<dots> \<longleftrightarrow>
     (\<exists>x y z u v. w = x @ y @ z @ u @ v \<and> x \<in> lang ic a \<and> y \<in> lang ic b \<and> z \<in> lang ic c \<and>
        u \<in> lang ic d \<and> v \<in> lang ic e)"
    by blast
  finally show ?thesis .
qed

lemma lang_date_token: "v \<in> lang True date_token \<longleftrightarrow> date_token_text v"
proof -
  have le: "(1::nat) \<le> 2" by simp
  let ?dd = "\<lambda>d. 1 \<le> length d \<and> length d \<le> 2 \<and> (\<forall>x \<in> set d. is_digit x)"
  let ?sep = "\<lambda>s. \<exists>c. s = [c] \<and> (c = CHR ''.'' \<or> c = CHR ''/'')"
  let ?yy = "\<lambda>y. length y = 4 \<and> (\<forall>x \<in> set y. is_digit x)"
  have d: "d \<in> lang True (from_to 1 2 digit) \<longleftrightarrow> ?dd d" for d
    unfolding digit_def lang_from_to_chr [OF le] by simp
  have s: "s \<in> lang True dot_slash \<longleftrightarrow> ?sep s" for s
    unfolding dot_slash_def lang_chr dot_slash_match ..
  have y: "y \<in> lang True (exactly 4 digit) \<longleftrightarrow> ?yy y" for y
    unfolding digit_def lang_exactly_chr by simp
  have "v \<in> lang True date_token \<longleftrightarrow>
     (\<exists>d1 s1 d2 s2 y. v = d1 @ s1 @ d2 @ s2 @ y \<and> ?dd d1 \<and> ?sep s1 \<and> ?dd d2 \<and> ?sep s2 \<and> ?yy y)"
    unfolding date_token_def lang_seqs5 d s y ..
  also have "\<dots> \<longleftrightarrow> date_token_text v"
  proof
    assume "\<exists>d1 s1 d2 s2 y. v = d1 @ s1 @ d2 @ s2 @ y \<and> ?dd d1 \<and> ?sep s1 \<and> ?dd d2 \<and> ?sep s2 \<and> ?yy y"
    then obtain d1 s1 d2 s2 y where h: "v = d1 @ s1 @ d2 @ s2 @ y" "?dd d1" "?sep s1" "?dd d2"
      "?sep s2" "?yy y" by blast
    from h(3) obtain c1 where c1: "s1 = [c1]" "c1 = CHR ''.'' \<or> c1 = CHR ''/''" by blast
    from h(5) obtain c2 where c2: "s2 = [c2]" "c2 = CHR ''.'' \<or> c2 = CHR ''/''" by blast
    from h(1) c1(1) c2(1) have "v = d1 @ [c1] @ d2 @ [c2] @ y" by simp
    with h(2,4,6) c1(2) c2(2) show "date_token_text v" unfolding date_token_text_def by blast
  next
    assume "date_token_text v"
    then obtain d1 c1 d2 c2 y where h: "v = d1 @ [c1] @ d2 @ [c2] @ y" "?dd d1"
      "c1 = CHR ''.'' \<or> c1 = CHR ''/''" "?dd d2" "c2 = CHR ''.'' \<or> c2 = CHR ''/''" "?yy y"
      unfolding date_token_text_def by blast
    have "?sep [c1]" "?sep [c2]" using h(3,5) by simp_all
    with h(1,2,4,6)
    show "\<exists>d1 s1 d2 s2 y. v = d1 @ s1 @ d2 @ s2 @ y \<and> ?dd d1 \<and> ?sep s1 \<and> ?dd d2 \<and> ?sep s2 \<and> ?yy y"
      by blast
  qed
  finally show ?thesis .
qed

lemma lang_colon_gap: "g \<in> lang True colon_gap \<longleftrightarrow> colon_gap_text g"
proof -
  have a: "a \<in> lang True (Star space) \<longleftrightarrow> (\<forall>x \<in> set a. is_space x)" for a
    unfolding space_def lang_star_chr by simp
  have c: "c \<in> lang True (opt (lit (CHR '':''))) \<longleftrightarrow> c = [] \<or> c = '':''" for c
    unfolding lit_def lang_opt lang_chr colon_match by auto
  show ?thesis unfolding colon_gap_def lang_seqs3 a c colon_gap_text_def ..
qed

lemma Date_lower: "toLowerCase ''Date'' = ''date''"
  by code_simp

lemma lang_labelled:
  "w \<in> lang True (Seq (str ''Date'') (Seq colon_gap (Grp 1 date_token))) \<longleftrightarrow>
     (\<exists>v. labelled_date w v)"
proof -
  have "w \<in> lang True (Seq (str ''Date'') (Seq colon_gap (Grp 1 date_token))) \<longleftrightarrow>
     (\<exists>d r. w = d @ r \<and> d \<in> lang True (str ''Date'') \<and>
        (\<exists>g v. r = g @ v \<and> g \<in> lang True colon_gap \<and> v \<in> lang True date_token))"
    unfolding lang_seq lang.simps(7) ..
  also have "\<dots> \<longleftrightarrow> (\<exists>v. labelled_date w v)"
    unfolding lang_str_icase Date_lower lang_colon_gap lang_date_token labelled_date_def by blast
  finally show ?thesis .
qed

text \<open>The text that a group at the end of an expression takes.\<close>

lemma sem_label_group:
  assumes "pure a" "pure b" "pure c"
    and "(MState bf u g0, x) \<in> sem f (Seq a (Seq b (Grp n c)))"
  shows "\<exists>d g v. u = d @ g @ v @ after x \<and> d \<in> lang (icase f) a \<and> g \<in> lang (icase f) b \<and>
           v \<in> lang (icase f) c \<and> map_of (groups x) n = Some v"
proof -
  from assms(4) obtain y z z' where s: "(MState bf u g0, y) \<in> sem f a" "(y, z) \<in> sem f b"
    "(z, z') \<in> sem f c" "x = set_group n (after z) z'" by auto
  from sem_lang [OF assms(1) s(1)] obtain d where d: "d \<in> lang (icase f) a" "u = d @ after y"
    by auto
  from sem_lang [OF assms(2) s(2)] obtain g where g: "g \<in> lang (icase f) b" "after y = g @ after z"
    by auto
  from sem_lang [OF assms(3) s(3)] obtain v where v: "v \<in> lang (icase f) c" "after z = v @ after z'"
    by auto
  have ax: "after x = after z'" using s(4) by (simp add: set_group_def)
  have "groups x = (n, take (length (after z) - length (after z')) (after z)) # groups z'"
    using s(4) by (simp add: set_group_def)
  then have "map_of (groups x) n = Some v" using v(2) by simp
  moreover have "u = d @ g @ v @ after x" using d(2) g(2) v(2) ax by simp
  ultimately show ?thesis using d(1) g(1) v(1) by blast
qed

lemma lang_seqs_tail:
  "w \<in> lang ic (seqs (a # b # c # d # rs)) \<Longrightarrow>
   \<exists>x w1. w = x @ w1 \<and> w1 \<in> lang ic (seqs (c # d # rs))"
proof -
  assume "w \<in> lang ic (seqs (a # b # c # d # rs))"
  then have "w \<in> lang ic (Seq a (Seq b (seqs (c # d # rs))))" by simp
  then obtain x y w1 where "w = x @ y @ w1" "w1 \<in> lang ic (seqs (c # d # rs))"
    unfolding lang_seq by blast
  then have "w = (x @ y) @ w1" "w1 \<in> lang ic (seqs (c # d # rs))" by simp_all
  then show ?thesis by blast
qed

lemma date_patterns:
  "patterns ''dateOfInvoice'' =
     [(flag_i, seqs [str ''Date'', colon_gap, Grp 1 date_token]),
      (flag_i, seqs [str ''Invoice'', many1 space, str ''Date'', colon_gap, Grp 1 date_token])]"
  by (simp add: patterns_def)

lemma pure_date_parts: "pure (str ''Date'')" "pure colon_gap" "pure date_token"
  "pure (seqs [str ''Date'', colon_gap, Grp 1 date_token])"
  "pure (seqs [str ''Invoice'', many1 space, str ''Date'', colon_gap, Grp 1 date_token])"
  by code_simp+

lemma date_None:
  "re_exec flag_i (seqs [str ''Date'', colon_gap, Grp 1 date_token]) t = None \<longleftrightarrow>
     \<not> (\<exists>p w u v. t = p @ w @ u \<and> labelled_date w v)"
proof -
  have ic: "icase flag_i = True" by (simp add: flag_i_def)
  have sq: "seqs [str ''Date'', colon_gap, Grp 1 date_token] =
            Seq (str ''Date'') (Seq colon_gap (Grp 1 date_token))" by (simp only: seqs.simps)
  have "re_exec flag_i (seqs [str ''Date'', colon_gap, Grp 1 date_token]) t \<noteq> None \<longleftrightarrow>
     (\<exists>p w u. t = p @ w @ u \<and> w \<in> lang True (Seq (str ''Date'') (Seq colon_gap (Grp 1 date_token))))"
    using re_exec_pure_iff [OF pure_date_parts(4), of flag_i t] unfolding ic sq .
  also have "\<dots> \<longleftrightarrow> (\<exists>p w u v. t = p @ w @ u \<and> labelled_date w v)"
    unfolding lang_labelled by blast
  finally show ?thesis by blast
qed

lemma date_second_None:
  assumes "re_exec flag_i (seqs [str ''Date'', colon_gap, Grp 1 date_token]) t = None"
  shows "re_exec flag_i
           (seqs [str ''Invoice'', many1 space, str ''Date'', colon_gap, Grp 1 date_token]) t = None"
proof (rule ccontr)
  let ?R1 = "seqs [str ''Date'', colon_gap, Grp 1 date_token]"
  let ?R2 = "seqs [str ''Invoice'', many1 space, str ''Date'', colon_gap, Grp 1 date_token]"
  assume "re_exec flag_i ?R2 t \<noteq> None"
  then obtain p w u where h: "t = p @ w @ u" "w \<in> lang (icase flag_i) ?R2"
    unfolding re_exec_pure_iff [OF pure_date_parts(5)] by blast
  from lang_seqs_tail [OF h(2)] obtain x w1 where w1: "w = x @ w1" "w1 \<in> lang (icase flag_i) ?R1"
    by blast
  from h(1) w1(1) have "t = (p @ x) @ w1 @ u" by simp
  with w1(2) have "\<exists>p w u. t = p @ w @ u \<and> w \<in> lang (icase flag_i) ?R1" by blast
  then have "re_exec flag_i ?R1 t \<noteq> None" unfolding re_exec_pure_iff [OF pure_date_parts(4)] .
  with assms show False by simp
qed

lemma date_Some:
  assumes "re_exec flag_i (seqs [str ''Date'', colon_gap, Grp 1 date_token]) t = Some mr"
  shows "\<exists>p w u v. t = p @ w @ u \<and> labelled_date w v \<and> match_group mr 1 = Some v \<and>
           (\<forall>p' w' u' v'. t = p' @ w' @ u' \<and> labelled_date w' v' \<longrightarrow> length p \<le> length p')"
proof -
  let ?R1 = "seqs [str ''Date'', colon_gap, Grp 1 date_token]"
  have ic: "icase flag_i = True" by (simp add: flag_i_def)
  have sq: "?R1 = Seq (str ''Date'') (Seq colon_gap (Grp 1 date_token))" by (simp only: seqs.simps)
  from re_exec_SomeD [OF assms] obtain p u0 where pu: "t = p @ u0"
    "match_here flag_i ?R1 (rev p) u0 = Some mr"
    "\<forall>p' u'. t = p' @ u' \<and> length p' < length p \<longrightarrow> match_here flag_i ?R1 (rev p') u' = None"
    by blast
  from match_here_SomeD [OF pu(2)] obtain x where
    x: "(MState (rev p) u0 [], x) \<in> sem flag_i (Seq (str ''Date'') (Seq colon_gap (Grp 1 date_token)))"
    "mr = RMatch (length (rev p)) (take (length u0 - length (after x)) u0) (groups x)"
    unfolding sq by blast
  from sem_label_group [OF pure_date_parts(1,2,3) x(1)] obtain d g v where
    dgv: "u0 = d @ g @ v @ after x" "d \<in> lang True (str ''Date'')" "g \<in> lang True colon_gap"
    "v \<in> lang True date_token" "map_of (groups x) 1 = Some v" unfolding ic by blast
  have lab: "labelled_date (d @ g @ v) v"
    using dgv(2,3,4) unfolding lang_str_icase Date_lower lang_colon_gap lang_date_token
      labelled_date_def by blast
  have grp: "match_group mr 1 = Some v" using x(2) dgv(5) by (simp add: match_group_def)
  have dec: "t = p @ (d @ g @ v) @ after x" using pu(1) dgv(1) by simp
  have least: "length p \<le> length p'" if "t = p' @ w' @ u'" "labelled_date w' v'" for p' w' u' v'
  proof (rule ccontr)
    assume "\<not> length p \<le> length p'"
    then have "length p' < length p" by simp
    with pu(3) that(1) have none: "match_here flag_i ?R1 (rev p') (w' @ u') = None" by blast
    from that(2) have "w' \<in> lang (icase flag_i) ?R1" unfolding ic sq lang_labelled by blast
    from lang_sem [OF pure_date_parts(4) this, of "rev p'" u' "[]"] obtain g' where
      "(MState (rev p') (w' @ u') [], MState (rev w' @ rev p') u' g') \<in> sem flag_i ?R1" by blast
    then have "match_here flag_i ?R1 (rev p') (w' @ u') \<noteq> None" by (rule match_here_matches)
    with none show False by simp
  qed
  from dec lab grp least show ?thesis by blast
qed

text \<open>
  C6, as the code has it. The date of the invoice is found exactly in the texts that hold a
  labelled date: the word "date" in some letter case ("Invoice Date" ends in it), then white
  space with at most one colon in it, then a date token (one or two digits, a dot or a
  slash, one or two digits, a dot or a slash, four digits). The value is the date token of
  the leftmost labelled date. A text without a labelled date gives \<open>null\<close>, and so does a
  text without any date token.
\<close>

theorem dateOfInvoice_needs_the_label:
  "(extractField t ''dateOfInvoice'' = None \<longleftrightarrow>
      \<not> (\<exists>p w u v. t = p @ w @ u \<and> labelled_date w v)) \<and>
   (\<forall>v. extractField t ''dateOfInvoice'' = Some v \<longrightarrow>
      (\<exists>p w u. t = p @ w @ u \<and> labelled_date w v \<and>
         (\<forall>p' w' u' v'. t = p' @ w' @ u' \<and> labelled_date w' v' \<longrightarrow> length p \<le> length p'))) \<and>
   (\<not> (\<exists>p v u. t = p @ v @ u \<and> date_token_text v) \<longrightarrow>
      extractField t ''dateOfInvoice'' = None)"
proof -
  let ?R1 = "seqs [str ''Date'', colon_gap, Grp 1 date_token]"
  let ?R2 = "seqs [str ''Invoice'', many1 space, str ''Date'', colon_gap, Grp 1 date_token]"
  have ef: "extractField t ''dateOfInvoice'' =
      (case re_exec flag_i ?R1 t of Some mr \<Rightarrow> match_group mr 1
       | None \<Rightarrow> (case re_exec flag_i ?R2 t of Some mr \<Rightarrow> match_group mr 1 | None \<Rightarrow> None))"
    by (simp only: extractField_def date_patterns first_match.simps)
  have first: "extractField t ''dateOfInvoice'' = None \<longleftrightarrow>
      \<not> (\<exists>p w u v. t = p @ w @ u \<and> labelled_date w v)"
  proof (cases "re_exec flag_i ?R1 t")
    case None
    from date_second_None [OF None] None have "extractField t ''dateOfInvoice'' = None"
      unfolding ef by simp
    moreover from None have "\<not> (\<exists>p w u v. t = p @ w @ u \<and> labelled_date w v)"
      unfolding date_None .
    ultimately show ?thesis by blast
  next
    case (Some mr)
    from date_Some [OF Some] obtain p w u v where h: "t = p @ w @ u" "labelled_date w v"
      "match_group mr 1 = Some v" by blast
    from Some h(3) have "extractField t ''dateOfInvoice'' = Some v" unfolding ef by simp
    with h(1,2) show ?thesis by auto
  qed
  have second: "\<forall>v. extractField t ''dateOfInvoice'' = Some v \<longrightarrow>
      (\<exists>p w u. t = p @ w @ u \<and> labelled_date w v \<and>
         (\<forall>p' w' u' v'. t = p' @ w' @ u' \<and> labelled_date w' v' \<longrightarrow> length p \<le> length p'))"
  proof (intro allI impI)
    fix v assume a: "extractField t ''dateOfInvoice'' = Some v"
    show "\<exists>p w u. t = p @ w @ u \<and> labelled_date w v \<and>
         (\<forall>p' w' u' v'. t = p' @ w' @ u' \<and> labelled_date w' v' \<longrightarrow> length p \<le> length p')"
    proof (cases "re_exec flag_i ?R1 t")
      case None
      from date_second_None [OF None] None have "extractField t ''dateOfInvoice'' = None"
        unfolding ef by simp
      with a show ?thesis by simp
    next
      case (Some mr)
      from date_Some [OF Some] obtain p w u v0 where h: "t = p @ w @ u" "labelled_date w v0"
        "match_group mr 1 = Some v0"
        "\<forall>p' w' u' v'. t = p' @ w' @ u' \<and> labelled_date w' v' \<longrightarrow> length p \<le> length p'"
        by blast
      from Some h(3) a have "v0 = v" unfolding ef by simp
      with h(1,2,4) show ?thesis by blast
    qed
  qed
  have third: "\<not> (\<exists>p v u. t = p @ v @ u \<and> date_token_text v) \<longrightarrow>
      extractField t ''dateOfInvoice'' = None"
  proof
    assume n: "\<not> (\<exists>p v u. t = p @ v @ u \<and> date_token_text v)"
    have "\<not> (\<exists>p w u v. t = p @ w @ u \<and> labelled_date w v)"
    proof
      assume "\<exists>p w u v. t = p @ w @ u \<and> labelled_date w v"
      then obtain p w u v d g where "t = p @ w @ u" "w = d @ g @ v" "date_token_text v"
        unfolding labelled_date_def by blast
      then have "t = (p @ d @ g) @ v @ u" "date_token_text v" by simp_all
      with n show False by blast
    qed
    with first show "extractField t ''dateOfInvoice'' = None" by blast
  qed
  from first second third show ?thesis by (intro conjI)
qed

theorem dateOfInvoice_needs_the_label_witness:
  "extractField ''Invoice Date: 15.03.2024'' ''dateOfInvoice'' = Some ''15.03.2024'' \<and>
   (\<exists>p w u. ''Invoice Date: 15.03.2024'' = p @ w @ u \<and> labelled_date w ''15.03.2024'') \<and>
   extractField ''Invoice 4711'' ''dateOfInvoice'' = None"
proof -
  have e: "extractField ''Invoice Date: 15.03.2024'' ''dateOfInvoice'' = Some ''15.03.2024''"
    by code_simp
  from dateOfInvoice_needs_the_label [of "''Invoice Date: 15.03.2024''", THEN conjunct2,
      THEN conjunct1, THEN spec, THEN mp, OF e]
  have l: "\<exists>p w u. ''Invoice Date: 15.03.2024'' = p @ w @ u \<and> labelled_date w ''15.03.2024''"
    by blast
  have n: "\<not> (\<exists>p v u. ''Invoice 4711'' = p @ v @ u \<and> date_token_text v)"
  proof
    assume "\<exists>p v u. ''Invoice 4711'' = p @ v @ u \<and> date_token_text v"
    then obtain p v u d1 s1 r where v: "''Invoice 4711'' = p @ v @ u" "v = d1 @ [s1] @ r"
      "s1 = CHR ''.'' \<or> s1 = CHR ''/''" unfolding date_token_text_def by blast
    then have "''Invoice 4711'' = (p @ d1) @ s1 # (r @ u)" by simp
    then have "s1 \<in> set ''Invoice 4711''" by (metis in_set_conv_decomp)
    with v(3) show False by auto
  qed
  from dateOfInvoice_needs_the_label [of "''Invoice 4711''", THEN conjunct2, THEN conjunct2,
      THEN mp, OF n]
  have z: "extractField ''Invoice 4711'' ''dateOfInvoice'' = None" .
  from e l z show ?thesis by (intro conjI)
qed

text \<open>
  The claim as stated fails: the label is not optional. A text that is a date token and
  nothing else, or one with a date token after another word, gives \<open>null\<close>.
\<close>

theorem bare_date_is_not_resolved:
  "extractField ''15.03.2024'' ''dateOfInvoice'' = None \<and>
   extractField ''Issued 15/03/2024'' ''dateOfInvoice'' = None"
  by code_simp

end
